theory Spec2Isabelle
  imports Main
begin

section \<open>Slots, element type and instrumentation\<close>

text \<open>
  The memory of a \<^verbatim>\<open>RawMemory<T>\<close> is a list of slots, one for each of the \<open>capacity_\<close>
  elements it stands for. A slot is raw (uninitialised bytes of the block) or holds a live
  element; a slot the block obtained from the allocator does not reach is \<open>OutOfBlock\<close>
  (see \<open>Allocate\<close>): nothing can be constructed there. The element type \<open>T\<close> is the
  type variable \<open>'a\<close>; what the code asks of \<open>T\<close> at compile time is collected in a
  record of traits: the two type predicates of the \<^verbatim>\<open>if constexpr\<close> tests, \<^verbatim>\<open>sizeof(T)\<close>, and
  the value a moved-from object is left with.
\<close>

datatype 'a slot = Raw | Live 'a | OutOfBlock

datatype error =
    AllocationFailure
  | ElementOperationFailure
  | AssertionFailure
  | UndefinedBehaviour
  | Terminate

record 'a traits =
  nothrow_move_constructible :: bool
  copy_constructible :: bool
  sizeof_T :: nat
  moved_from :: "'a \<Rightarrow> 'a"

text \<open>
  The environment of a run: the counters of an instrumented element type (constructor
  calls, destructor calls, and destructor calls that hit a slot holding no live element),
  the counters of the allocator, and the plan of the run: the outcomes of the operations
  that can throw, in the order they are executed (\<open>True\<close>: this one throws). An exhausted
  plan means that nothing throws any more.
\<close>

record env =
  ctors :: nat
  dtors :: nat
  raw_dtors :: nat
  allocs :: nat
  deallocs :: nat
  plan :: "bool list"

definition attempt :: "env \<Rightarrow> bool \<times> env" where
  "attempt e = (case plan e of [] \<Rightarrow> (False, e) | b # bs \<Rightarrow> (b, e\<lparr>plan := bs\<rparr>))"

definition read_live :: "'a slot list \<Rightarrow> nat \<Rightarrow> 'a option" where
  "read_live xs i =
     (if i < length xs then (case xs ! i of Raw \<Rightarrow> None | Live x \<Rightarrow> Some x | OutOfBlock \<Rightarrow> None)
      else None)"

text \<open>Placement new: \<^verbatim>\<open>new (p) T(args)\<close>, the arguments standing for the value \<open>x\<close>.\<close>

definition construct_at :: "'a slot list \<Rightarrow> nat \<Rightarrow> 'a \<Rightarrow> env \<Rightarrow> error option \<times> 'a slot list \<times> env" where
  "construct_at xs i x e =
     (if i < length xs \<and> xs ! i \<noteq> OutOfBlock then
        (let (failed, e') = attempt e in
         if failed then (Some ElementOperationFailure, xs, e')
         else (None, xs[i := Live x], e'\<lparr>ctors := ctors e' + 1\<rparr>))
      else (Some UndefinedBehaviour, xs, e))"

text \<open>Copy construction of slot \<open>j\<close> of \<open>dst\<close> from slot \<open>i\<close> of \<open>src\<close>.\<close>

definition copy_construct ::
  "'a slot list \<Rightarrow> nat \<Rightarrow> 'a slot list \<Rightarrow> nat \<Rightarrow> env \<Rightarrow> error option \<times> 'a slot list \<times> env" where
  "copy_construct src i dst j e =
     (case read_live src i of
        None \<Rightarrow> (Some UndefinedBehaviour, dst, e)
      | Some x \<Rightarrow> construct_at dst j x e)"

text \<open>
  Move construction of slot \<open>j\<close> of \<open>dst\<close> from slot \<open>i\<close> of \<open>src\<close>, another block. It
  cannot throw when \<open>T\<close> is nothrow move constructible.
\<close>

definition move_construct ::
  "'a traits \<Rightarrow> 'a slot list \<Rightarrow> nat \<Rightarrow> 'a slot list \<Rightarrow> nat \<Rightarrow> env
     \<Rightarrow> error option \<times> 'a slot list \<times> 'a slot list \<times> env" where
  "move_construct tr src i dst j e =
     (case read_live src i of
        None \<Rightarrow> (Some UndefinedBehaviour, src, dst, e)
      | Some x \<Rightarrow>
          if j < length dst \<and> dst ! j \<noteq> OutOfBlock then
            (let (failed, e') = (if nothrow_move_constructible tr then (False, e) else attempt e) in
             if failed then (Some ElementOperationFailure, src, dst, e')
             else (None, src[i := Live (moved_from tr x)], dst[j := Live x],
                   e'\<lparr>ctors := ctors e' + 1\<rparr>))
          else (Some UndefinedBehaviour, src, dst, e))"

text \<open>Move construction of slot \<open>j\<close> from slot \<open>i\<close> of the same block.\<close>

definition move_construct_within ::
  "'a traits \<Rightarrow> 'a slot list \<Rightarrow> nat \<Rightarrow> nat \<Rightarrow> env \<Rightarrow> error option \<times> 'a slot list \<times> env" where
  "move_construct_within tr xs i j e =
     (case read_live xs i of
        None \<Rightarrow> (Some UndefinedBehaviour, xs, e)
      | Some x \<Rightarrow>
          if j < length xs \<and> xs ! j \<noteq> OutOfBlock then
            (let (failed, e') = (if nothrow_move_constructible tr then (False, e) else attempt e) in
             if failed then (Some ElementOperationFailure, xs, e')
             else (None, xs[j := Live x, i := Live (moved_from tr x)],
                   e'\<lparr>ctors := ctors e' + 1\<rparr>))
          else (Some UndefinedBehaviour, xs, e))"

text \<open>Copy assignment \<^verbatim>\<open>dst[j] = src[i]\<close>: both slots have to hold live elements.\<close>

definition copy_assign_elem ::
  "'a slot list \<Rightarrow> nat \<Rightarrow> 'a slot list \<Rightarrow> nat \<Rightarrow> env \<Rightarrow> error option \<times> 'a slot list \<times> env" where
  "copy_assign_elem src i dst j e =
     (case read_live src i of
        None \<Rightarrow> (Some UndefinedBehaviour, dst, e)
      | Some x \<Rightarrow>
          (case read_live dst j of
             None \<Rightarrow> (Some UndefinedBehaviour, dst, e)
           | Some y \<Rightarrow>
               (let (failed, e') = attempt e in
                if failed then (Some ElementOperationFailure, dst, e')
                else (None, dst[j := Live x], e'))))"

text \<open>Move assignment \<^verbatim>\<open>xs[j] = std::move(xs[i])\<close> inside one block.\<close>

definition move_assign_elem ::
  "'a traits \<Rightarrow> 'a slot list \<Rightarrow> nat \<Rightarrow> nat \<Rightarrow> env \<Rightarrow> error option \<times> 'a slot list \<times> env" where
  "move_assign_elem tr xs i j e =
     (case read_live xs i of
        None \<Rightarrow> (Some UndefinedBehaviour, xs, e)
      | Some x \<Rightarrow>
          (case read_live xs j of
             None \<Rightarrow> (Some UndefinedBehaviour, xs, e)
           | Some y \<Rightarrow>
               (let (failed, e') = attempt e in
                if failed then (Some ElementOperationFailure, xs, e')
                else (None, xs[j := Live x, i := Live (moved_from tr x)], e'))))"

text \<open>Move assignment of a temporary holding \<open>x\<close> into slot \<open>j\<close>.\<close>

definition move_assign_value ::
  "'a slot list \<Rightarrow> nat \<Rightarrow> 'a \<Rightarrow> env \<Rightarrow> error option \<times> 'a slot list \<times> env" where
  "move_assign_value xs j x e =
     (case read_live xs j of
        None \<Rightarrow> (Some UndefinedBehaviour, xs, e)
      | Some y \<Rightarrow>
          (let (failed, e') = attempt e in
           if failed then (Some ElementOperationFailure, xs, e')
           else (None, xs[j := Live x], e')))"

text \<open>
  The destructor of \<open>T\<close> run on slot \<open>i\<close>. It does not throw and leaves a live slot raw.
  A call on a slot without a live element (raw, destroyed before, or outside the block)
  is counted in \<open>raw_dtors\<close>.
\<close>

definition destroy_at :: "'a slot list \<Rightarrow> nat \<Rightarrow> env \<Rightarrow> 'a slot list \<times> env" where
  "destroy_at xs i e =
     ((if read_live xs i = None then xs else xs[i := Raw]),
      e\<lparr>dtors := dtors e + 1,
        raw_dtors := raw_dtors e + (if read_live xs i = None then 1 else 0)\<rparr>)"

section \<open>The algorithms of the standard library the code calls\<close>

primrec destroy_n :: "'a slot list \<Rightarrow> nat \<Rightarrow> nat \<Rightarrow> env \<Rightarrow> 'a slot list \<times> env" where
  "destroy_n xs first 0 e = (xs, e)"
| "destroy_n xs first (Suc n) e =
     (case destroy_at xs first e of (xs', e') \<Rightarrow> destroy_n xs' (Suc first) n e')"

text \<open>
  \<^verbatim>\<open>std::uninitialized_copy_n(first, n, d_first)\<close>: \<open>k\<close> elements are constructed so far;
  when a construction throws, the \<open>k\<close> constructed elements are destroyed and the
  exception goes on.
\<close>

primrec uninitialized_copy_loop ::
  "'a slot list \<Rightarrow> nat \<Rightarrow> 'a slot list \<Rightarrow> nat \<Rightarrow> nat \<Rightarrow> nat \<Rightarrow> env
     \<Rightarrow> error option \<times> 'a slot list \<times> env" where
  "uninitialized_copy_loop src first dst d_first k 0 e = (None, dst, e)"
| "uninitialized_copy_loop src first dst d_first k (Suc n) e =
     (case copy_construct src (first + k) dst (d_first + k) e of
        (Some err, dst', e') \<Rightarrow>
          (case destroy_n dst' d_first k e' of (dst'', e'') \<Rightarrow> (Some err, dst'', e''))
      | (None, dst', e') \<Rightarrow> uninitialized_copy_loop src first dst' d_first (Suc k) n e')"

definition uninitialized_copy_n ::
  "'a slot list \<Rightarrow> nat \<Rightarrow> nat \<Rightarrow> 'a slot list \<Rightarrow> nat \<Rightarrow> env \<Rightarrow> error option \<times> 'a slot list \<times> env" where
  "uninitialized_copy_n src first n dst d_first e =
     uninitialized_copy_loop src first dst d_first 0 n e"

primrec uninitialized_move_loop ::
  "'a traits \<Rightarrow> 'a slot list \<Rightarrow> nat \<Rightarrow> 'a slot list \<Rightarrow> nat \<Rightarrow> nat \<Rightarrow> nat \<Rightarrow> env
     \<Rightarrow> error option \<times> 'a slot list \<times> 'a slot list \<times> env" where
  "uninitialized_move_loop tr src first dst d_first k 0 e = (None, src, dst, e)"
| "uninitialized_move_loop tr src first dst d_first k (Suc n) e =
     (case move_construct tr src (first + k) dst (d_first + k) e of
        (Some err, src', dst', e') \<Rightarrow>
          (case destroy_n dst' d_first k e' of (dst'', e'') \<Rightarrow> (Some err, src', dst'', e''))
      | (None, src', dst', e') \<Rightarrow>
          uninitialized_move_loop tr src' first dst' d_first (Suc k) n e')"

definition uninitialized_move_n ::
  "'a traits \<Rightarrow> 'a slot list \<Rightarrow> nat \<Rightarrow> nat \<Rightarrow> 'a slot list \<Rightarrow> nat \<Rightarrow> env
     \<Rightarrow> error option \<times> 'a slot list \<times> 'a slot list \<times> env" where
  "uninitialized_move_n tr src first n dst d_first e =
     uninitialized_move_loop tr src first dst d_first 0 n e"

text \<open>
  \<^verbatim>\<open>std::move(first, last, d_first)\<close> inside one block, front to back. A range with
  \<open>last\<close> before \<open>first\<close> is not a range: undefined behaviour.
\<close>

primrec std_move_loop ::
  "'a traits \<Rightarrow> 'a slot list \<Rightarrow> nat \<Rightarrow> nat \<Rightarrow> nat \<Rightarrow> env \<Rightarrow> error option \<times> 'a slot list \<times> env" where
  "std_move_loop tr xs first d_first 0 e = (None, xs, e)"
| "std_move_loop tr xs first d_first (Suc n) e =
     (case move_assign_elem tr xs first d_first e of
        (Some err, xs', e') \<Rightarrow> (Some err, xs', e')
      | (None, xs', e') \<Rightarrow> std_move_loop tr xs' (Suc first) (Suc d_first) n e')"

definition std_move ::
  "'a traits \<Rightarrow> 'a slot list \<Rightarrow> nat \<Rightarrow> nat \<Rightarrow> nat \<Rightarrow> env \<Rightarrow> error option \<times> 'a slot list \<times> env" where
  "std_move tr xs first lst d_first e =
     (if first \<le> lst then std_move_loop tr xs first d_first (lst - first) e
      else (Some UndefinedBehaviour, xs, e))"

text \<open>\<^verbatim>\<open>std::move_backward(first, last, d_last)\<close> inside one block, back to front.\<close>

primrec move_backward_loop ::
  "'a traits \<Rightarrow> 'a slot list \<Rightarrow> nat \<Rightarrow> nat \<Rightarrow> nat \<Rightarrow> env \<Rightarrow> error option \<times> 'a slot list \<times> env" where
  "move_backward_loop tr xs lst d_last 0 e = (None, xs, e)"
| "move_backward_loop tr xs lst d_last (Suc n) e =
     (if lst = 0 \<or> d_last = 0 then (Some UndefinedBehaviour, xs, e)
      else
        (case move_assign_elem tr xs (lst - 1) (d_last - 1) e of
           (Some err, xs', e') \<Rightarrow> (Some err, xs', e')
         | (None, xs', e') \<Rightarrow> move_backward_loop tr xs' (lst - 1) (d_last - 1) n e'))"

definition move_backward ::
  "'a traits \<Rightarrow> 'a slot list \<Rightarrow> nat \<Rightarrow> nat \<Rightarrow> nat \<Rightarrow> env \<Rightarrow> error option \<times> 'a slot list \<times> env" where
  "move_backward tr xs first lst d_last e =
     (if first \<le> lst then move_backward_loop tr xs lst d_last (lst - first) e
      else (Some UndefinedBehaviour, xs, e))"

section \<open>RawMemory\<close>

text \<open>
  A \<^verbatim>\<open>RawMemory<T>\<close> is the list of its \<open>capacity_\<close> slots, the null buffer of capacity
  0 being the empty list. \<^verbatim>\<open>Allocate(n)\<close> calls \<^verbatim>\<open>operator new(n * sizeof(T))\<close> for a
  nonzero \<open>n\<close>; the call can throw. The product is computed in \<^verbatim>\<open>size_t\<close>, of 64 bits,
  and wraps around: the block obtained has room for as many elements as its bytes
  hold, and the slots behind them, up to \<open>n\<close>, are not in the block. \<^verbatim>\<open>Deallocate\<close> of
  the null buffer does nothing.
\<close>

type_synonym 'a RawMemory = "'a slot list"

definition size_t_mult :: "nat \<Rightarrow> nat \<Rightarrow> nat" where
  "size_t_mult a b = (a * b) mod 2 ^ 64"

definition block_of :: "'a traits \<Rightarrow> nat \<Rightarrow> 'a RawMemory" where
  "block_of tr n =
     (let bytes = size_t_mult n (sizeof_T tr);
          in_block = bytes div sizeof_T tr
      in replicate in_block Raw @ replicate (n - in_block) OutOfBlock)"

definition Allocate :: "'a traits \<Rightarrow> nat \<Rightarrow> env \<Rightarrow> (error + 'a RawMemory) \<times> env" where
  "Allocate tr n e =
     (if n \<noteq> 0 then
        (let (failed, e') = attempt e in
         if failed then (Inl AllocationFailure, e')
         else (Inr (block_of tr n), e'\<lparr>allocs := allocs e' + 1\<rparr>))
      else (Inr [], e))"

definition Deallocate :: "'a RawMemory \<Rightarrow> env \<Rightarrow> env" where
  "Deallocate buf e = (if buf \<noteq> [] then e\<lparr>deallocs := deallocs e + 1\<rparr> else e)"

definition RawMemory_ctor :: "'a traits \<Rightarrow> nat \<Rightarrow> env \<Rightarrow> (error + 'a RawMemory) \<times> env" where
  "RawMemory_ctor tr capacity e = Allocate tr capacity e"

definition RawMemory_dtor :: "'a RawMemory \<Rightarrow> env \<Rightarrow> env" where
  "RawMemory_dtor m e = Deallocate m e"

definition RawMemory_Capacity :: "'a RawMemory \<Rightarrow> nat" where
  "RawMemory_Capacity m = length m"

text \<open>The assertions of \<^verbatim>\<open>operator+\<close> and \<^verbatim>\<open>operator[]\<close>.\<close>

definition RawMemory_plus_ok :: "'a RawMemory \<Rightarrow> nat \<Rightarrow> bool" where
  "RawMemory_plus_ok m offset \<longleftrightarrow> offset \<le> RawMemory_Capacity m"

definition RawMemory_index_ok :: "'a RawMemory \<Rightarrow> nat \<Rightarrow> bool" where
  "RawMemory_index_ok m index \<longleftrightarrow> index < RawMemory_Capacity m"

section \<open>Vector\<close>

text \<open>The members \<^verbatim>\<open>data_\<close> and \<^verbatim>\<open>size_\<close> are written \<open>m_data\<close> and \<open>m_size\<close>.\<close>

record 'a Vector =
  m_data :: "'a RawMemory"
  m_size :: nat

definition Size :: "'a Vector \<Rightarrow> nat" where
  "Size v = m_size v"

definition Capacity :: "'a Vector \<Rightarrow> nat" where
  "Capacity v = RawMemory_Capacity (m_data v)"

text \<open>Iterators are element pointers: the model is the offset from the start of the block.\<close>

type_synonym iterator = int

definition cbegin :: "'a Vector \<Rightarrow> iterator" where
  "cbegin v = 0"

definition cend :: "'a Vector \<Rightarrow> iterator" where
  "cend v = int (m_size v)"

definition Vector_default :: "'a Vector" where
  "Vector_default = \<lparr>m_data = [], m_size = 0\<rparr>"

text \<open>The destructor: the live elements are destroyed, then the member \<open>m_data\<close>.\<close>

definition Vector_dtor :: "'a Vector \<Rightarrow> env \<Rightarrow> env" where
  "Vector_dtor v e =
     (case destroy_n (m_data v) 0 (m_size v) e of (d, e') \<Rightarrow> RawMemory_dtor d e')"

text \<open>
  The copy constructor. When the copy of an element throws, the member \<open>m_data\<close>, already
  constructed, is destroyed; the destructor of the Vector does not run.
\<close>

definition Vector_copy_ctor ::
  "'a traits \<Rightarrow> 'a Vector \<Rightarrow> env \<Rightarrow> (error + 'a Vector) \<times> env" where
  "Vector_copy_ctor tr other e =
     (case RawMemory_ctor tr (m_size other) e of
        (Inl err, e1) \<Rightarrow> (Inl err, e1)
      | (Inr d, e1) \<Rightarrow>
          (case uninitialized_copy_n (m_data other) 0 (m_size other) d 0 e1 of
             (Some err, d', e2) \<Rightarrow> (Inl err, RawMemory_dtor d' e2)
           | (None, d', e2) \<Rightarrow> (Inr \<lparr>m_data = d', m_size = m_size other\<rparr>, e2)))"

text \<open>
  The move constructor: \<open>m_data\<close> is moved out of \<open>other\<close> (whose buffer becomes null), the
  size is exchanged with 0, and the body moves \<open>other.m_size\<close> elements, read after the
  exchange, from the buffer of \<open>other\<close>. The function is \<^verbatim>\<open>noexcept\<close>: an exception ends
  the program. The result is the new Vector and \<open>other\<close> as it is left.
\<close>

definition Vector_move_ctor ::
  "'a traits \<Rightarrow> 'a Vector \<Rightarrow> env \<Rightarrow> (error + 'a Vector \<times> 'a Vector) \<times> env" where
  "Vector_move_ctor tr other e =
     (let d = m_data other;
          other1 = other\<lparr>m_data := []\<rparr>;
          n = m_size other1;
          other2 = other1\<lparr>m_size := 0\<rparr>
      in case uninitialized_move_n tr (m_data other2) 0 (m_size other2) d 0 e of
           (Some err, od, d', e') \<Rightarrow>
             (Inl (if err = ElementOperationFailure then Terminate else err), e')
         | (None, od, d', e') \<Rightarrow>
             (Inr (\<lparr>m_data = d', m_size = n\<rparr>, other2\<lparr>m_data := od\<rparr>), e'))"

definition Swap :: "'a Vector \<Rightarrow> 'a Vector \<Rightarrow> 'a Vector \<times> 'a Vector" where
  "Swap this other =
     (\<lparr>m_data = m_data other, m_size = m_size other\<rparr>, \<lparr>m_data = m_data this, m_size = m_size this\<rparr>)"

text \<open>
  Copy assignment. The loop \<^verbatim>\<open>for(; i < bound; ++i) data_[i] = rhs.data_[i]\<close> has \<open>n\<close>
  iterations left; each \<^verbatim>\<open>operator[]\<close> of a RawMemory asserts its index. The function
  \<open>copy_assign\<close> is the body of the operator under its test \<^verbatim>\<open>this != &rhs\<close>, on two
  distinct objects.
\<close>

primrec copy_assign_loop ::
  "'a slot list \<Rightarrow> 'a slot list \<Rightarrow> nat \<Rightarrow> nat \<Rightarrow> env \<Rightarrow> error option \<times> 'a slot list \<times> nat \<times> env" where
  "copy_assign_loop rdata d i 0 e = (None, d, i, e)"
| "copy_assign_loop rdata d i (Suc n) e =
     (if \<not> (RawMemory_index_ok d i \<and> RawMemory_index_ok rdata i)
      then (Some AssertionFailure, d, i, e)
      else
        (case copy_assign_elem rdata i d i e of
           (Some err, d', e') \<Rightarrow> (Some err, d', i, e')
         | (None, d', e') \<Rightarrow> copy_assign_loop rdata d' (Suc i) n e'))"

definition copy_assign ::
  "'a traits \<Rightarrow> 'a Vector \<Rightarrow> 'a Vector \<Rightarrow> env \<Rightarrow> error option \<times> 'a Vector \<times> env" where
  "copy_assign tr this rhs e =
     (if m_size rhs > RawMemory_Capacity (m_data this) then
        (case Vector_copy_ctor tr rhs e of
           (Inl err, e1) \<Rightarrow> (Some err, this, e1)
         | (Inr temp, e1) \<Rightarrow>
             (case Swap this temp of (this', temp') \<Rightarrow> (None, this', Vector_dtor temp' e1)))
      else if m_size rhs < m_size this then
        (case copy_assign_loop (m_data rhs) (m_data this) 0 (m_size rhs) e of
           (Some err, d, i, e1) \<Rightarrow> (Some err, this\<lparr>m_data := d\<rparr>, e1)
         | (None, d, i, e1) \<Rightarrow>
             (case destroy_n d (m_size rhs) (m_size this - m_size rhs) e1 of
                (d', e2) \<Rightarrow> (None, \<lparr>m_data = d', m_size = m_size rhs\<rparr>, e2)))
      else
        (case copy_assign_loop (m_data rhs) (m_data this) 0 (m_size this) e of
           (Some err, d, i, e1) \<Rightarrow> (Some err, this\<lparr>m_data := d\<rparr>, e1)
         | (None, d, i, e1) \<Rightarrow>
             (case uninitialized_copy_n (m_data rhs) 0 (m_size rhs - m_size this) d i e1 of
                (Some err, d', e2) \<Rightarrow> (Some err, this\<lparr>m_data := d'\<rparr>, e2)
              | (None, d', e2) \<Rightarrow> (None, \<lparr>m_data = d', m_size = m_size rhs\<rparr>, e2))))"

text \<open>
  The two assignment operators compare the addresses of their operands. Vector objects
  live in a store, at addresses; an operator takes the addresses \<open>this\<close> and \<open>rhs\<close>.
\<close>

type_synonym 'a store = "nat \<Rightarrow> 'a Vector"

definition Vector_copy_assign ::
  "'a traits \<Rightarrow> nat \<Rightarrow> nat \<Rightarrow> 'a store \<Rightarrow> env \<Rightarrow> error option \<times> 'a store \<times> env" where
  "Vector_copy_assign tr this rhs s e =
     (if this \<noteq> rhs then
        (case copy_assign tr (s this) (s rhs) e of (err, v, e') \<Rightarrow> (err, s(this := v), e'))
      else (None, s, e))"

text \<open>
  Move assignment: the two \<open>m_data\<close> are swapped, \<open>m_size\<close> takes the size of \<open>rhs\<close>, which
  is set to 0. No element operation and no allocation takes place.
\<close>

definition Vector_move_assign :: "nat \<Rightarrow> nat \<Rightarrow> 'a store \<Rightarrow> 'a store" where
  "Vector_move_assign this rhs s =
     (if this \<noteq> rhs then
        (let this_data = m_data (s rhs);
             rhs_data = m_data (s this);
             this_size = m_size (s rhs)
         in s(this := \<lparr>m_data = this_data, m_size = this_size\<rparr>,
              rhs := \<lparr>m_data = rhs_data, m_size = 0\<rparr>))
      else s)"

definition Reserve :: "'a traits \<Rightarrow> nat \<Rightarrow> 'a Vector \<Rightarrow> env \<Rightarrow> error option \<times> 'a Vector \<times> env" where
  "Reserve tr new_capacity v e =
     (if new_capacity \<le> RawMemory_Capacity (m_data v) then (None, v, e)
      else
        (case RawMemory_ctor tr new_capacity e of
           (Inl err, e1) \<Rightarrow> (Some err, v, e1)
         | (Inr new_data, e1) \<Rightarrow>
             if nothrow_move_constructible tr \<or> \<not> copy_constructible tr then
               (case uninitialized_move_n tr (m_data v) 0 (m_size v) new_data 0 e1 of
                  (Some err, d, nd, e2) \<Rightarrow> (Some err, v\<lparr>m_data := d\<rparr>, RawMemory_dtor nd e2)
                | (None, d, nd, e2) \<Rightarrow>
                    (case destroy_n d 0 (m_size v) e2 of
                       (d', e3) \<Rightarrow> (None, v\<lparr>m_data := nd\<rparr>, RawMemory_dtor d' e3)))
             else
               (case uninitialized_copy_n (m_data v) 0 (m_size v) new_data 0 e1 of
                  (Some err, nd, e2) \<Rightarrow> (Some err, v, RawMemory_dtor nd e2)
                | (None, nd, e2) \<Rightarrow>
                    (case destroy_n (m_data v) 0 (m_size v) e2 of
                       (d', e3) \<Rightarrow> (None, v\<lparr>m_data := nd\<rparr>, RawMemory_dtor d' e3)))))"

text \<open>
  EmplaceBack returns a reference to the new element: in the model, its index. A failed
  assertion ends the program, so no destructor runs after it. The new element is
  constructed before any element of the Vector is moved or destroyed, so arguments that
  refer to an element of this Vector are read as they were at the call: they stand for
  the value \<open>args\<close>.
\<close>

definition EmplaceBack ::
  "'a traits \<Rightarrow> 'a \<Rightarrow> 'a Vector \<Rightarrow> env \<Rightarrow> (error + nat) \<times> 'a Vector \<times> env" where
  "EmplaceBack tr args v e =
     (if m_size v = RawMemory_Capacity (m_data v) then
        (case RawMemory_ctor tr (if m_size v = 0 then 1 else size_t_mult (m_size v) 2) e of
           (Inl err, e1) \<Rightarrow> (Inl err, v, e1)
         | (Inr new_data, e1) \<Rightarrow>
             if \<not> RawMemory_plus_ok new_data (m_size v) then (Inl AssertionFailure, v, e1)
             else
               (case construct_at new_data (m_size v) args e1 of
                  (Some err, nd, e2) \<Rightarrow> (Inl err, v, RawMemory_dtor nd e2)
                | (None, nd, e2) \<Rightarrow>
                    if nothrow_move_constructible tr \<or> \<not> copy_constructible tr then
                      (case uninitialized_move_n tr (m_data v) 0 (m_size v) nd 0 e2 of
                         (Some err, d, nd', e3) \<Rightarrow>
                           (case destroy_at nd' (m_size v) e3 of
                              (nd'', e4) \<Rightarrow> (Inl err, v\<lparr>m_data := d\<rparr>, RawMemory_dtor nd'' e4))
                       | (None, d, nd', e3) \<Rightarrow>
                           (case destroy_n d 0 (m_size v) e3 of
                              (d', e4) \<Rightarrow>
                                (Inr (m_size v), \<lparr>m_data = nd', m_size = m_size v + 1\<rparr>,
                                 RawMemory_dtor d' e4)))
                    else
                      (case uninitialized_copy_n (m_data v) 0 (m_size v) nd 0 e2 of
                         (Some err, nd', e3) \<Rightarrow>
                           (case destroy_at nd' (m_size v) e3 of
                              (nd'', e4) \<Rightarrow> (Inl err, v, RawMemory_dtor nd'' e4))
                       | (None, nd', e3) \<Rightarrow>
                           (case destroy_n (m_data v) 0 (m_size v) e3 of
                              (d', e4) \<Rightarrow>
                                (Inr (m_size v), \<lparr>m_data = nd', m_size = m_size v + 1\<rparr>,
                                 RawMemory_dtor d' e4)))))
      else if \<not> RawMemory_plus_ok (m_data v) (m_size v) then (Inl AssertionFailure, v, e)
      else
        (case construct_at (m_data v) (m_size v) args e of
           (Some err, d, e1) \<Rightarrow> (Inl err, v\<lparr>m_data := d\<rparr>, e1)
         | (None, d, e1) \<Rightarrow> (Inr (m_size v), \<lparr>m_data = d, m_size = m_size v + 1\<rparr>, e1)))"

definition PushBack :: "'a traits \<Rightarrow> 'a \<Rightarrow> 'a Vector \<Rightarrow> env \<Rightarrow> error option \<times> 'a Vector \<times> env" where
  "PushBack tr val v e =
     (case EmplaceBack tr val v e of
        (Inl err, v', e') \<Rightarrow> (Some err, v', e')
      | (Inr r, v', e') \<Rightarrow> (None, v', e'))"

text \<open>The assertion at the head of Emplace and of Erase.\<close>

definition Emplace_assertion :: "'a Vector \<Rightarrow> iterator \<Rightarrow> bool" where
  "Emplace_assertion v pos \<longleftrightarrow> pos \<ge> cbegin v \<and> pos \<le> cend v"

definition Erase_assertion :: "'a Vector \<Rightarrow> iterator \<Rightarrow> bool" where
  "Erase_assertion v pos \<longleftrightarrow> pos \<ge> cbegin v \<and> pos \<le> cend v"

text \<open>
  The arguments forwarded by Emplace are a value of the caller's own or a reference to
  the element at an index of this Vector (as in \<^verbatim>\<open>v.Emplace(pos, v[i])\<close>). A reference is
  read when the constructor of \<open>T\<close> runs, in the buffer of the Vector as it is then.
\<close>

datatype 'a arg = Value 'a | Element nat

definition arg_value :: "'a arg \<Rightarrow> 'a slot list \<Rightarrow> 'a option" where
  "arg_value a xs = (case a of Value x \<Rightarrow> Some x | Element i \<Rightarrow> read_live xs i)"

definition construct_from ::
  "'a slot list \<Rightarrow> 'a arg \<Rightarrow> 'a slot list \<Rightarrow> nat \<Rightarrow> env \<Rightarrow> error option \<times> 'a slot list \<times> env" where
  "construct_from own a xs i e =
     (case arg_value a own of
        None \<Rightarrow> (Some UndefinedBehaviour, xs, e)
      | Some x \<Rightarrow> construct_at xs i x e)"

text \<open>
  Emplace. In the growing branch the new element is constructed first, from the old
  buffer, and the handler of the relocation destroys the first \<open>index\<close> slots of the new
  block and the new element, whatever the relocation had reached. In the other branch
  \<open>m_size\<close> is incremented before the last element is moved up, the temporary is built
  from the arguments after the elements were shifted, and it is destroyed at the end of
  the statement.
\<close>

definition Emplace ::
  "'a traits \<Rightarrow> iterator \<Rightarrow> 'a arg \<Rightarrow> 'a Vector \<Rightarrow> env
     \<Rightarrow> (error + iterator) \<times> 'a Vector \<times> env" where
  "Emplace tr pos args v e =
     (if \<not> Emplace_assertion v pos then (Inl AssertionFailure, v, e)
      else
        let index = nat (pos - cbegin v) in
        if m_size v = RawMemory_Capacity (m_data v) then
          (case RawMemory_ctor tr (if m_size v = 0 then 1 else size_t_mult (m_size v) 2) e of
             (Inl err, e1) \<Rightarrow> (Inl err, v, e1)
           | (Inr new_data, e1) \<Rightarrow>
               if \<not> RawMemory_plus_ok new_data index then (Inl AssertionFailure, v, e1)
               else
                 (case construct_from (m_data v) args new_data index e1 of
                    (Some err, nd, e2) \<Rightarrow> (Inl err, v, RawMemory_dtor nd e2)
                  | (None, nd, e2) \<Rightarrow>
                      (case
                         (if nothrow_move_constructible tr \<or> \<not> copy_constructible tr then
                            (case uninitialized_move_n tr (m_data v) 0 index nd 0 e2 of
                               (Some err, d, nd', e3) \<Rightarrow> (Some err, d, nd', e3)
                             | (None, d, nd', e3) \<Rightarrow>
                                 uninitialized_move_n tr d index (m_size v - index) nd' (index + 1) e3)
                          else
                            (case uninitialized_copy_n (m_data v) 0 index nd 0 e2 of
                               (Some err, nd', e3) \<Rightarrow> (Some err, m_data v, nd', e3)
                             | (None, nd', e3) \<Rightarrow>
                                 (case uninitialized_copy_n (m_data v) index (m_size v - index)
                                         nd' (index + 1) e3 of
                                    (r, nd'', e4) \<Rightarrow> (r, m_data v, nd'', e4))))
                       of
                         (Some err, d, nd', e3) \<Rightarrow>
                           (case destroy_n nd' 0 index e3 of
                              (nd'', e4) \<Rightarrow>
                                (case destroy_at nd'' index e4 of
                                   (nd3, e5) \<Rightarrow>
                                     (Inl err, v\<lparr>m_data := d\<rparr>, RawMemory_dtor nd3 e5)))
                       | (None, d, nd', e3) \<Rightarrow>
                           (case destroy_n d 0 (m_size v) e3 of
                              (d', e4) \<Rightarrow>
                                (Inr (int index), \<lparr>m_data = nd', m_size = m_size v + 1\<rparr>,
                                 RawMemory_dtor d' e4)))))
        else if index < m_size v then
          (let last_elem = m_size v; v1 = v\<lparr>m_size := m_size v + 1\<rparr> in
           case move_construct_within tr (m_data v1) (last_elem - 1) last_elem e of
             (Some err, d, e1) \<Rightarrow> (Inl err, v1\<lparr>m_data := d\<rparr>, e1)
           | (None, d, e1) \<Rightarrow>
               (case move_backward tr d index (last_elem - 1) last_elem e1 of
                  (Some err, d', e2) \<Rightarrow> (Inl err, v1\<lparr>m_data := d'\<rparr>, e2)
                | (None, d', e2) \<Rightarrow>
                    (case arg_value args d' of
                       None \<Rightarrow> (Inl UndefinedBehaviour, v1\<lparr>m_data := d'\<rparr>, e2)
                     | Some x \<Rightarrow>
                         (let (failed, e3) = attempt e2 in
                          if failed then (Inl ElementOperationFailure, v1\<lparr>m_data := d'\<rparr>, e3)
                          else
                            let e4 = e3\<lparr>ctors := ctors e3 + 1\<rparr> in
                            if \<not> RawMemory_index_ok d' index
                            then (Inl AssertionFailure, v1\<lparr>m_data := d'\<rparr>, e4)
                            else
                              (case move_assign_value d' index x e4 of
                                 (Some err, d'', e5) \<Rightarrow>
                                   (Inl err, v1\<lparr>m_data := d''\<rparr>, e5\<lparr>dtors := dtors e5 + 1\<rparr>)
                               | (None, d'', e5) \<Rightarrow>
                                   (Inr (int index), v1\<lparr>m_data := d''\<rparr>,
                                    e5\<lparr>dtors := dtors e5 + 1\<rparr>))))))
        else if \<not> RawMemory_plus_ok (m_data v) (m_size v) then (Inl AssertionFailure, v, e)
        else
          (case construct_from (m_data v) args (m_data v) (m_size v) e of
             (Some err, d, e1) \<Rightarrow> (Inl err, v\<lparr>m_data := d\<rparr>, e1)
           | (None, d, e1) \<Rightarrow>
               (Inr (int index), \<lparr>m_data = d, m_size = m_size v + 1\<rparr>, e1)))"

definition Insert ::
  "'a traits \<Rightarrow> iterator \<Rightarrow> 'a arg \<Rightarrow> 'a Vector \<Rightarrow> env \<Rightarrow> (error + iterator) \<times> 'a Vector \<times> env" where
  "Insert tr pos val v e = Emplace tr pos val v e"

text \<open>
  Erase is \<^verbatim>\<open>noexcept\<close>: a move assignment that throws ends the program. The element at
  \<^verbatim>\<open>end() - 1\<close> exists only in a Vector that is not empty.
\<close>

definition Erase ::
  "'a traits \<Rightarrow> iterator \<Rightarrow> 'a Vector \<Rightarrow> env \<Rightarrow> (error + iterator) \<times> 'a Vector \<times> env" where
  "Erase tr pos v e =
     (if \<not> Erase_assertion v pos then (Inl AssertionFailure, v, e)
      else
        let index = nat (pos - cbegin v) in
        (case std_move tr (m_data v) (index + 1) (m_size v) index e of
           (Some err, d, e1) \<Rightarrow>
             (Inl (if err = ElementOperationFailure then Terminate else err), v\<lparr>m_data := d\<rparr>, e1)
         | (None, d, e1) \<Rightarrow>
             if m_size v = 0 then (Inl UndefinedBehaviour, v\<lparr>m_data := d\<rparr>, e1)
             else
               (case destroy_n d (m_size v - 1) 1 e1 of
                  (d', e2) \<Rightarrow> (Inr (int index), \<lparr>m_data = d', m_size = m_size v - 1\<rparr>, e2))))"

section \<open>The invariant of a Vector and its contents\<close>

text \<open>
  Slots \<open>[0, n)\<close> hold live elements and slots \<open>[n, C)\<close> are raw, with \<open>n \<le> C\<close>. The
  contents of a Vector are its first \<open>n\<close> slots.
\<close>

definition is_live :: "'a slot \<Rightarrow> bool" where
  "is_live s = (case s of Live x \<Rightarrow> True | Raw \<Rightarrow> False | OutOfBlock \<Rightarrow> False)"

text \<open>The kind of a slot, whatever the element it holds.\<close>

definition shape :: "'a slot \<Rightarrow> unit slot" where
  "shape s = map_slot (\<lambda>x. ()) s"

definition Vector_inv :: "'a Vector \<Rightarrow> bool" where
  "Vector_inv v \<longleftrightarrow>
     m_size v \<le> length (m_data v) \<and>
     list_all is_live (take (m_size v) (m_data v)) \<and>
     list_all (\<lambda>s. s = Raw) (drop (m_size v) (m_data v))"

definition elements :: "'a Vector \<Rightarrow> 'a slot list" where
  "elements v = take (m_size v) (m_data v)"

section \<open>Runs without exceptions, and the inputs of the examples\<close>

text \<open>In the rest of a run nothing throws: no planned outcome is a failure.\<close>

definition nothing_throws :: "env \<Rightarrow> bool" where
  "nothing_throws e \<longleftrightarrow> list_all (\<lambda>b. \<not> b) (plan e)"

text \<open>The request of \<^verbatim>\<open>Allocate(n)\<close> does not wrap around: the block holds all \<open>n\<close> slots.\<close>

definition allocation_fits :: "'a traits \<Rightarrow> nat \<Rightarrow> bool" where
  "allocation_fits tr n \<longleftrightarrow> 0 < sizeof_T tr \<and> n * sizeof_T tr < 2 ^ 64"

text \<open>
  An instrumented element type over \<open>int\<close>, of 4 bytes: its move constructor may throw
  and it can be copied, so relocation copies; a moved-from object holds 0. An environment in which \<open>n\<close>
  elements have been constructed so far, with a plan. A store with two Vector objects,
  at the addresses 0 and 1.
\<close>

definition int_traits :: "int traits" where
  "int_traits =
     \<lparr>nothrow_move_constructible = False, copy_constructible = True, sizeof_T = 4,
      moved_from = (\<lambda>x. 0)\<rparr>"

definition env_of :: "nat \<Rightarrow> bool list \<Rightarrow> env" where
  "env_of n p = \<lparr>ctors = n, dtors = 0, raw_dtors = 0, allocs = 0, deallocs = 0, plan = p\<rparr>"

definition two_vectors :: "'a Vector \<Rightarrow> 'a Vector \<Rightarrow> 'a store" where
  "two_vectors a b = (\<lambda>_. Vector_default)(0 := a, 1 := b)"

section \<open>Facts about the element operations and the algorithms\<close>

lemma is_live_simps:
  "is_live (Live x)" "\<not> is_live Raw" "\<not> is_live OutOfBlock"
  by (simp_all add: is_live_def)

lemma is_live_iff: "is_live s \<longleftrightarrow> (\<exists>x. s = Live x)"
  by (cases s) (simp_all add: is_live_def)

lemma shape_simps:
  "shape Raw = Raw" "shape (Live x) = Live ()" "shape OutOfBlock = OutOfBlock"
  by (simp_all add: shape_def)

lemma is_live_shape: "is_live s \<longleftrightarrow> shape s = Live ()"
  by (cases s) (simp_all add: is_live_def shape_def)

lemma shape_eq_Raw: "shape s = Raw \<longleftrightarrow> s = Raw"
  by (cases s) (simp_all add: shape_def)

lemma same_shape_live: "shape s' = shape s \<Longrightarrow> is_live s' = is_live s"
  by (simp add: is_live_shape)

lemma same_shape_Raw: "shape s' = shape s \<Longrightarrow> s' = Raw \<longleftrightarrow> s = Raw"
  using shape_eq_Raw [of s'] shape_eq_Raw [of s] by simp

lemma same_shape_nth:
  assumes m: "map shape xs' = map shape xs" and j: "j < length xs"
  shows "shape (xs' ! j) = shape (xs ! j)"
proof -
  have len: "length xs' = length xs" using m by (rule map_eq_imp_length_eq)
  have "map shape xs' ! j = map shape xs ! j" by (simp only: m)
  moreover have "map shape xs' ! j = shape (xs' ! j)" using j len by simp
  moreover have "map shape xs ! j = shape (xs ! j)" using j by simp
  ultimately show ?thesis by simp
qed

lemma attempt_counters:
  "attempt e = (b, e') \<Longrightarrow>
     ctors e' = ctors e \<and> dtors e' = dtors e \<and> raw_dtors e' = raw_dtors e"
  by (auto simp: attempt_def split: list.splits)

lemma attempt_nothing_throws:
  "nothing_throws e \<Longrightarrow> \<exists>e'. attempt e = (False, e') \<and> nothing_throws e'"
  by (auto simp: attempt_def nothing_throws_def split: list.splits)

lemma read_live_Some: "read_live xs i = Some x \<longleftrightarrow> i < length xs \<and> xs ! i = Live x"
  by (auto simp: read_live_def split: slot.splits)

lemma read_live_None: "read_live xs i = None \<longleftrightarrow> (i < length xs \<longrightarrow> \<not> is_live (xs ! i))"
  by (auto simp: read_live_def is_live_def split: slot.splits)

lemma construct_at_None:
  "construct_at xs i x e = (None, xs', e') \<Longrightarrow>
     i < length xs \<and> xs ! i \<noteq> OutOfBlock \<and> xs' = xs[i := Live x] \<and>
     ctors e' = Suc (ctors e) \<and> dtors e' = dtors e \<and> raw_dtors e' = raw_dtors e"
  by (auto simp: construct_at_def split: if_splits prod.splits dest: attempt_counters)

lemma construct_at_Some:
  "construct_at xs i x e = (Some err, xs', e') \<Longrightarrow>
     xs' = xs \<and> ctors e' = ctors e \<and> dtors e' = dtors e \<and> raw_dtors e' = raw_dtors e"
  by (auto simp: construct_at_def split: if_splits prod.splits dest: attempt_counters)

lemma construct_at_total:
  "i < length xs \<and> xs ! i \<noteq> OutOfBlock \<Longrightarrow> nothing_throws e \<Longrightarrow>
     \<exists>e'. construct_at xs i x e = (None, xs[i := Live x], e') \<and> nothing_throws e'"
proof -
  assume i: "i < length xs \<and> xs ! i \<noteq> OutOfBlock" and n: "nothing_throws e"
  from attempt_nothing_throws [OF n] obtain e1 where
    a: "attempt e = (False, e1)" and n1: "nothing_throws e1" by blast
  have "nothing_throws (e1\<lparr>ctors := ctors e1 + 1\<rparr>)"
    using n1 by (simp add: nothing_throws_def)
  then show ?thesis using i a by (auto simp: construct_at_def)
qed

lemma copy_construct_None:
  "copy_construct src i dst j e = (None, dst', e') \<Longrightarrow>
     i < length src \<and> is_live (src ! i) \<and> j < length dst \<and> dst ! j \<noteq> OutOfBlock \<and>
     dst' = dst[j := src ! i] \<and>
     ctors e' = Suc (ctors e) \<and> dtors e' = dtors e \<and> raw_dtors e' = raw_dtors e"
  by (auto simp: copy_construct_def read_live_Some is_live_simps split: option.splits
      dest!: construct_at_None)

lemma copy_construct_Some:
  "copy_construct src i dst j e = (Some err, dst', e') \<Longrightarrow>
     dst' = dst \<and> ctors e' = ctors e \<and> dtors e' = dtors e \<and> raw_dtors e' = raw_dtors e"
  by (auto simp: copy_construct_def split: option.splits dest!: construct_at_Some)

lemma copy_construct_total:
  "i < length src \<Longrightarrow> is_live (src ! i) \<Longrightarrow> j < length dst \<and> dst ! j \<noteq> OutOfBlock \<Longrightarrow>
   nothing_throws e \<Longrightarrow>
     \<exists>e'. copy_construct src i dst j e = (None, dst[j := src ! i], e') \<and> nothing_throws e'"
  using construct_at_total [of j dst e]
  by (cases "src ! i") (auto simp: copy_construct_def read_live_def is_live_simps)

lemma destroy_at_effect:
  "destroy_at xs i e = (xs', e') \<Longrightarrow>
     xs' = (if i < length xs \<and> is_live (xs ! i) then xs[i := Raw] else xs) \<and>
     ctors e' = ctors e \<and> dtors e' = Suc (dtors e) \<and> plan e' = plan e \<and>
     raw_dtors e' = raw_dtors e + (if i < length xs \<and> is_live (xs ! i) then 0 else 1)"
  by (auto simp: destroy_at_def read_live_None)

lemma destroy_n_effect:
  "destroy_n xs first n e = (xs', e') \<Longrightarrow>
     length xs' = length xs \<and>
     (\<forall>j<length xs. j < first \<or> first + n \<le> j \<longrightarrow> xs' ! j = xs ! j) \<and>
     ctors e' = ctors e \<and> dtors e' = dtors e + n \<and> plan e' = plan e"
proof (induction n arbitrary: xs first e)
  case 0
  then show ?case by auto
next
  case (Suc n)
  obtain xs1 e1 where s: "destroy_at xs first e = (xs1, e1)"
    by (cases "destroy_at xs first e")
  with Suc.prems have r: "destroy_n xs1 (Suc first) n e1 = (xs', e')" by simp
  note a = destroy_at_effect [OF s] and b = Suc.IH [OF r]
  show ?case using a b by (auto simp: nth_list_update split: if_splits)
qed

lemma destroy_n_live:
  "destroy_n xs first n e = (xs', e') \<Longrightarrow> first + n \<le> length xs \<Longrightarrow>
     (\<forall>j. first \<le> j \<and> j < first + n \<longrightarrow> is_live (xs ! j)) \<Longrightarrow>
     raw_dtors e' = raw_dtors e"
proof (induction n arbitrary: xs first e)
  case 0
  then show ?case by simp
next
  case (Suc n)
  obtain xs1 e1 where s: "destroy_at xs first e = (xs1, e1)"
    by (cases "destroy_at xs first e")
  with Suc.prems have r: "destroy_n xs1 (Suc first) n e1 = (xs', e')" by simp
  note a = destroy_at_effect [OF s]
  have "raw_dtors e' = raw_dtors e1"
    using Suc.prems(2,3) a by (intro Suc.IH [OF r]) (auto simp: nth_list_update)
  moreover have "raw_dtors e1 = raw_dtors e" using a Suc.prems(2,3) by auto
  ultimately show ?case by simp
qed

lemma uninitialized_copy_loop_None:
  "uninitialized_copy_loop src first dst d_first k n e = (None, dst', e') \<Longrightarrow>
     length dst' = length dst \<and>
     (0 < n \<longrightarrow> first + k + n \<le> length src \<and> d_first + k + n \<le> length dst) \<and>
     (\<forall>j<length dst. dst' ! j =
        (if d_first + k \<le> j \<and> j < d_first + k + n then src ! (first + (j - d_first)) else dst ! j)) \<and>
     ctors e' = ctors e + n \<and> dtors e' = dtors e \<and> raw_dtors e' = raw_dtors e"
proof (induction n arbitrary: k dst e)
  case 0
  then show ?case by auto
next
  case (Suc n)
  obtain r dst1 e1 where s: "copy_construct src (first + k) dst (d_first + k) e = (r, dst1, e1)"
    by (cases "copy_construct src (first + k) dst (d_first + k) e")
  with Suc.prems have rn: "r = None"
    by (cases r) (auto split: prod.splits)
  with s Suc.prems have rest: "uninitialized_copy_loop src first dst1 d_first (Suc k) n e1 = (None, dst', e')"
    by simp
  note a = copy_construct_None [OF s [unfolded rn]] and b = Suc.IH [OF rest]
  have len: "length dst' = length dst" using a b by simp
  have bounds: "first + k + Suc n \<le> length src \<and> d_first + k + Suc n \<le> length dst"
    using a b by (cases n) auto
  have nth: "\<forall>j<length dst. dst' ! j =
        (if d_first + k \<le> j \<and> j < d_first + k + Suc n then src ! (first + (j - d_first)) else dst ! j)"
  proof (intro allI impI)
    fix j assume j: "j < length dst"
    show "dst' ! j =
        (if d_first + k \<le> j \<and> j < d_first + k + Suc n then src ! (first + (j - d_first)) else dst ! j)"
    proof (cases "j = d_first + k")
      case True
      then show ?thesis using a b j by simp
    next
      case False
      then show ?thesis using a b j by (auto simp: nth_list_update)
    qed
  qed
  show ?case using len bounds nth a b by simp
qed

lemma uninitialized_copy_loop_Some:
  "uninitialized_copy_loop src first dst d_first k n e = (Some err, dst', e') \<Longrightarrow>
     d_first + k \<le> length dst \<Longrightarrow>
     (\<forall>j. d_first \<le> j \<and> j < d_first + k \<longrightarrow> is_live (dst ! j)) \<Longrightarrow>
     length dst' = length dst \<and>
     (\<forall>j<length dst. j < d_first \<or> d_first + k + n \<le> j \<longrightarrow> dst' ! j = dst ! j) \<and>
     dtors e' + ctors e = dtors e + k + ctors e' \<and> raw_dtors e' = raw_dtors e"
proof (induction n arbitrary: k dst e)
  case 0
  then show ?case by simp
next
  case (Suc n)
  obtain r dst1 e1 where s: "copy_construct src (first + k) dst (d_first + k) e = (r, dst1, e1)"
    by (cases "copy_construct src (first + k) dst (d_first + k) e")
  show ?case
  proof (cases r)
    case None
    with s Suc.prems(1) have rest:
      "uninitialized_copy_loop src first dst1 d_first (Suc k) n e1 = (Some err, dst', e')"
      by simp
    note a = copy_construct_None [OF s [unfolded None]]
    have p1: "d_first + Suc k \<le> length dst1" using a by simp
    have p2: "\<forall>j. d_first \<le> j \<and> j < d_first + Suc k \<longrightarrow> is_live (dst1 ! j)"
      using a Suc.prems(2,3) by (auto simp: nth_list_update)
    note b = Suc.IH [OF rest p1 p2]
    show ?thesis using a b by (auto simp: nth_list_update)
  next
    case (Some err1)
    obtain dst2 e2 where d: "destroy_n dst1 d_first k e1 = (dst2, e2)"
      by (cases "destroy_n dst1 d_first k e1")
    from s Some d Suc.prems(1) have eq: "dst' = dst2" "e' = e2" by auto
    note a = copy_construct_Some [OF s [unfolded Some]]
    note b = destroy_n_effect [OF d]
    have c: "raw_dtors e2 = raw_dtors e1"
      using Suc.prems(2,3) a by (intro destroy_n_live [OF d]) auto
    show ?thesis using a b c eq by auto
  qed
qed

lemma uninitialized_copy_loop_total:
  "nothing_throws e \<Longrightarrow> first + k + n \<le> length src \<Longrightarrow> d_first + k + n \<le> length dst \<Longrightarrow>
   (\<forall>i. first + k \<le> i \<and> i < first + k + n \<longrightarrow> is_live (src ! i)) \<Longrightarrow>
   (\<forall>j. d_first + k \<le> j \<and> j < d_first + k + n \<longrightarrow> dst ! j \<noteq> OutOfBlock) \<Longrightarrow>
   \<exists>dst' e'. uninitialized_copy_loop src first dst d_first k n e = (None, dst', e') \<and>
      nothing_throws e'"
proof (induction n arbitrary: k dst e)
  case 0
  then show ?case by simp
next
  case (Suc n)
  have "\<exists>e1. copy_construct src (first + k) dst (d_first + k) e =
          (None, dst[d_first + k := src ! (first + k)], e1) \<and> nothing_throws e1"
    using Suc.prems by (intro copy_construct_total) auto
  then obtain e1 where
    s: "copy_construct src (first + k) dst (d_first + k) e =
          (None, dst[d_first + k := src ! (first + k)], e1)" and n1: "nothing_throws e1"
    by blast
  have "\<exists>dst' e'. uninitialized_copy_loop src first (dst[d_first + k := src ! (first + k)])
           d_first (Suc k) n e1 = (None, dst', e') \<and> nothing_throws e'"
    using Suc.prems n1 by (intro Suc.IH) (auto simp: nth_list_update)
  then show ?case using s by simp
qed


lemma move_construct_None:
  "move_construct tr src i dst j e = (None, src', dst', e') \<Longrightarrow>
     i < length src \<and> is_live (src ! i) \<and> j < length dst \<and> dst ! j \<noteq> OutOfBlock \<and>
     dst' = dst[j := src ! i] \<and>
     length src' = length src \<and> map shape src' = map shape src \<and>
     (\<forall>m. m \<noteq> i \<longrightarrow> src' ! m = src ! m) \<and>
     ctors e' = Suc (ctors e) \<and> dtors e' = dtors e \<and> raw_dtors e' = raw_dtors e"
  by (auto simp: move_construct_def read_live_Some is_live_simps map_update list_update_same_conv
      shape_simps split: option.splits if_splits prod.splits dest: attempt_counters)

lemma move_construct_Some:
  "move_construct tr src i dst j e = (Some err, src', dst', e') \<Longrightarrow>
     src' = src \<and> dst' = dst \<and>
     ctors e' = ctors e \<and> dtors e' = dtors e \<and> raw_dtors e' = raw_dtors e"
  by (auto simp: move_construct_def split: option.splits if_splits prod.splits
      dest: attempt_counters)

lemma move_construct_total:
  assumes "i < length src" "is_live (src ! i)" "j < length dst \<and> dst ! j \<noteq> OutOfBlock"
    "nothing_throws e"
  shows "\<exists>src' e'. move_construct tr src i dst j e = (None, src', dst[j := src ! i], e') \<and>
           nothing_throws e'"
proof -
  obtain x where x: "src ! i = Live x" using assms(2) by (auto simp: is_live_iff)
  obtain e1 where a: "attempt e = (False, e1)" and n1: "nothing_throws e1"
    using attempt_nothing_throws [OF assms(4)] by blast
  have n2: "nothing_throws (e1\<lparr>ctors := ctors e1 + 1\<rparr>)" "nothing_throws (e\<lparr>ctors := ctors e + 1\<rparr>)"
    using n1 assms(4) by (simp_all add: nothing_throws_def)
  show ?thesis using assms(1,3) x a n2 by (auto simp: move_construct_def read_live_def)
qed

lemma uninitialized_move_loop_None:
  "uninitialized_move_loop tr src first dst d_first k n e = (None, src', dst', e') \<Longrightarrow>
     length dst' = length dst \<and> length src' = length src \<and>
     map shape src' = map shape src \<and>
     (0 < n \<longrightarrow> first + k + n \<le> length src \<and> d_first + k + n \<le> length dst) \<and>
     (\<forall>j<length dst. dst' ! j =
        (if d_first + k \<le> j \<and> j < d_first + k + n then src ! (first + (j - d_first)) else dst ! j)) \<and>
     ctors e' = ctors e + n \<and> dtors e' = dtors e \<and> raw_dtors e' = raw_dtors e"
proof (induction n arbitrary: k src dst e)
  case 0
  then show ?case by auto
next
  case (Suc n)
  obtain r src1 dst1 e1 where
    s: "move_construct tr src (first + k) dst (d_first + k) e = (r, src1, dst1, e1)"
    by (cases "move_construct tr src (first + k) dst (d_first + k) e")
  with Suc.prems have rn: "r = None"
    by (cases r) (auto split: prod.splits)
  with s Suc.prems have rest:
    "uninitialized_move_loop tr src1 first dst1 d_first (Suc k) n e1 = (None, src', dst', e')"
    by simp
  note a = move_construct_None [OF s [unfolded rn]] and b = Suc.IH [OF rest]
  have len: "length dst' = length dst" "length src' = length src"
    "map shape src' = map shape src" using a b by simp_all
  have bounds: "first + k + Suc n \<le> length src \<and> d_first + k + Suc n \<le> length dst"
    using a b by (cases n) auto
  have nth: "\<forall>j<length dst. dst' ! j =
        (if d_first + k \<le> j \<and> j < d_first + k + Suc n then src ! (first + (j - d_first)) else dst ! j)"
  proof (intro allI impI)
    fix j assume j: "j < length dst"
    show "dst' ! j =
        (if d_first + k \<le> j \<and> j < d_first + k + Suc n then src ! (first + (j - d_first)) else dst ! j)"
    proof (cases "j = d_first + k")
      case True
      then show ?thesis using a b j by simp
    next
      case False
      then show ?thesis using a b j by (auto simp: nth_list_update)
    qed
  qed
  show ?case using len bounds nth a b by simp
qed

lemma uninitialized_move_loop_Some:
  "uninitialized_move_loop tr src first dst d_first k n e = (Some err, src', dst', e') \<Longrightarrow>
     d_first + k \<le> length dst \<Longrightarrow>
     (\<forall>j. d_first \<le> j \<and> j < d_first + k \<longrightarrow> is_live (dst ! j)) \<Longrightarrow>
     length dst' = length dst \<and> length src' = length src \<and>
     map shape src' = map shape src \<and>
     (\<forall>j<length dst. j < d_first \<or> d_first + k + n \<le> j \<longrightarrow> dst' ! j = dst ! j) \<and>
     dtors e' + ctors e = dtors e + k + ctors e' \<and> raw_dtors e' = raw_dtors e"
proof (induction n arbitrary: k src dst e)
  case 0
  then show ?case by simp
next
  case (Suc n)
  obtain r src1 dst1 e1 where
    s: "move_construct tr src (first + k) dst (d_first + k) e = (r, src1, dst1, e1)"
    by (cases "move_construct tr src (first + k) dst (d_first + k) e")
  show ?case
  proof (cases r)
    case None
    with s Suc.prems(1) have rest:
      "uninitialized_move_loop tr src1 first dst1 d_first (Suc k) n e1 = (Some err, src', dst', e')"
      by simp
    note a = move_construct_None [OF s [unfolded None]]
    have p1: "d_first + Suc k \<le> length dst1" using a by simp
    have p2: "\<forall>j. d_first \<le> j \<and> j < d_first + Suc k \<longrightarrow> is_live (dst1 ! j)"
      using a Suc.prems(2,3) by (auto simp: nth_list_update)
    note b = Suc.IH [OF rest p1 p2]
    show ?thesis using a b by (auto simp: nth_list_update)
  next
    case (Some err1)
    obtain dst2 e2 where d: "destroy_n dst1 d_first k e1 = (dst2, e2)"
      by (cases "destroy_n dst1 d_first k e1")
    from s Some d Suc.prems(1) have eq: "dst' = dst2" "e' = e2" "src' = src1" by auto
    note a = move_construct_Some [OF s [unfolded Some]]
    note b = destroy_n_effect [OF d]
    have c: "raw_dtors e2 = raw_dtors e1"
      using Suc.prems(2,3) a by (intro destroy_n_live [OF d]) auto
    show ?thesis using a b c eq by auto
  qed
qed

lemma uninitialized_move_loop_total:
  "nothing_throws e \<Longrightarrow> first + k + n \<le> length src \<Longrightarrow> d_first + k + n \<le> length dst \<Longrightarrow>
   (\<forall>i. first + k \<le> i \<and> i < first + k + n \<longrightarrow> is_live (src ! i)) \<Longrightarrow>
   (\<forall>j. d_first + k \<le> j \<and> j < d_first + k + n \<longrightarrow> dst ! j \<noteq> OutOfBlock) \<Longrightarrow>
   \<exists>src' dst' e'. uninitialized_move_loop tr src first dst d_first k n e = (None, src', dst', e') \<and>
      nothing_throws e'"
proof (induction n arbitrary: k src dst e)
  case 0
  then show ?case by simp
next
  case (Suc n)
  have "\<exists>src1 e1. move_construct tr src (first + k) dst (d_first + k) e =
          (None, src1, dst[d_first + k := src ! (first + k)], e1) \<and> nothing_throws e1"
    using Suc.prems by (intro move_construct_total) auto
  then obtain src1 e1 where
    s: "move_construct tr src (first + k) dst (d_first + k) e =
          (None, src1, dst[d_first + k := src ! (first + k)], e1)" and n1: "nothing_throws e1"
    by blast
  note a = move_construct_None [OF s]
  have "\<exists>src' dst' e'. uninitialized_move_loop tr src1 first (dst[d_first + k := src ! (first + k)])
           d_first (Suc k) n e1 = (None, src', dst', e') \<and> nothing_throws e'"
    using Suc.prems n1 a by (intro Suc.IH) (auto simp: nth_list_update)
  then show ?case using s by simp
qed

section \<open>Facts about the invariant and about RawMemory\<close>

lemma Vector_inv_nth:
  "Vector_inv v \<longleftrightarrow>
     m_size v \<le> length (m_data v) \<and>
     (\<forall>j<length (m_data v).
        (j < m_size v \<longrightarrow> is_live (m_data v ! j)) \<and> (m_size v \<le> j \<longrightarrow> m_data v ! j = Raw))"
proof -
  have a: "list_all is_live (take (m_size v) (m_data v)) \<longleftrightarrow>
        (\<forall>j<length (m_data v). j < m_size v \<longrightarrow> is_live (m_data v ! j))"
    by (auto simp: list_all_length)
  have b: "list_all (\<lambda>s. s = Raw) (drop (m_size v) (m_data v)) \<longleftrightarrow>
        (\<forall>j<length (m_data v). m_size v \<le> j \<longrightarrow> m_data v ! j = Raw)"
  proof
    assume l: "list_all (\<lambda>s. s = Raw) (drop (m_size v) (m_data v))"
    show "\<forall>j<length (m_data v). m_size v \<le> j \<longrightarrow> m_data v ! j = Raw"
    proof (intro allI impI)
      fix j assume j: "j < length (m_data v)" "m_size v \<le> j"
      then have "j - m_size v < length (drop (m_size v) (m_data v))" by simp
      with l have "drop (m_size v) (m_data v) ! (j - m_size v) = Raw"
        by (simp only: list_all_length)
      with j show "m_data v ! j = Raw" by simp
    qed
  next
    assume "\<forall>j<length (m_data v). m_size v \<le> j \<longrightarrow> m_data v ! j = Raw"
    then show "list_all (\<lambda>s. s = Raw) (drop (m_size v) (m_data v))"
      by (auto simp: list_all_length)
  qed
  show ?thesis unfolding Vector_inv_def a b by auto
qed

lemma Vector_inv_live:
  assumes "Vector_inv v"
  shows "m_size v \<le> length (m_data v)"
    and "\<forall>j<length (m_data v). is_live (m_data v ! j) \<longleftrightarrow> j < m_size v"
    and "\<forall>j<length (m_data v). m_size v \<le> j \<longrightarrow> m_data v ! j = Raw"
  using assms unfolding Vector_inv_nth by (auto simp: is_live_simps)

lemma length_block_of: "length (block_of tr n) = n"
proof -
  have "size_t_mult n (sizeof_T tr) div sizeof_T tr \<le> n"
  proof (cases "sizeof_T tr = 0")
    case True
    then show ?thesis by simp
  next
    case False
    have "size_t_mult n (sizeof_T tr) \<le> n * sizeof_T tr"
      by (simp add: size_t_mult_def)
    then have "size_t_mult n (sizeof_T tr) div sizeof_T tr \<le> n * sizeof_T tr div sizeof_T tr"
      by (rule div_le_mono)
    then show ?thesis using False by simp
  qed
  then show ?thesis by (simp add: block_of_def Let_def)
qed

lemma block_of_fits: "allocation_fits tr n \<Longrightarrow> block_of tr n = replicate n Raw"
  by (simp add: allocation_fits_def block_of_def size_t_mult_def)

lemma block_of_not_live: "j < n \<Longrightarrow> \<not> is_live (block_of tr n ! j)"
  by (auto simp: block_of_def Let_def nth_append is_live_simps)

lemma RawMemory_ctor_Inr:
  "RawMemory_ctor tr n e = (Inr m, e1) \<Longrightarrow>
     m = block_of tr n \<and> ctors e1 = ctors e \<and> dtors e1 = dtors e \<and> raw_dtors e1 = raw_dtors e"
  by (auto simp: RawMemory_ctor_def Allocate_def block_of_def size_t_mult_def
      split: if_splits prod.splits dest: attempt_counters)

lemma RawMemory_ctor_Inl:
  "RawMemory_ctor tr n e = (Inl err, e1) \<Longrightarrow>
     ctors e1 = ctors e \<and> dtors e1 = dtors e \<and> raw_dtors e1 = raw_dtors e"
  by (auto simp: RawMemory_ctor_def Allocate_def split: if_splits prod.splits
      dest: attempt_counters)

lemma RawMemory_ctor_total:
  assumes "nothing_throws e"
  shows "\<exists>e1. RawMemory_ctor tr n e = (Inr (block_of tr n), e1) \<and> nothing_throws e1"
proof -
  obtain e1 where a: "attempt e = (False, e1)" and n1: "nothing_throws e1"
    using attempt_nothing_throws [OF assms] by blast
  have "nothing_throws (e1\<lparr>allocs := allocs e1 + 1\<rparr>)"
    using n1 by (simp add: nothing_throws_def)
  then show ?thesis using a assms
    by (auto simp: RawMemory_ctor_def Allocate_def block_of_def size_t_mult_def)
qed

lemma RawMemory_dtor_counters:
  "ctors (RawMemory_dtor m e) = ctors e \<and> dtors (RawMemory_dtor m e) = dtors e \<and>
   raw_dtors (RawMemory_dtor m e) = raw_dtors e \<and> plan (RawMemory_dtor m e) = plan e"
  by (simp add: RawMemory_dtor_def Deallocate_def)

lemma relocated_prefix:
  assumes "n \<le> length src" "n \<le> length nd'"
    and "\<forall>j<length nd'. nd' ! j = (if j < n then src ! j else rest j)"
  shows "take n nd' = take n src"
  using assms by (intro nth_equalityI) auto

lemma Vector_inv_same_liveness:
  assumes "Vector_inv v" "m_size v' = m_size v" "map shape (m_data v') = map shape (m_data v)"
  shows "Vector_inv v'"
proof -
  have len: "length (m_data v') = length (m_data v)"
    using assms(3) by (rule map_eq_imp_length_eq)
  have s: "shape (m_data v' ! j) = shape (m_data v ! j)" if "j < length (m_data v)" for j
    using assms(3) that by (rule same_shape_nth)
  have l: "is_live (m_data v' ! j) = is_live (m_data v ! j)" if "j < length (m_data v)" for j
    using s [OF that] by (rule same_shape_live)
  have r: "m_data v' ! j = Raw \<longleftrightarrow> m_data v ! j = Raw" if "j < length (m_data v)" for j
    using s [OF that] by (rule same_shape_Raw)
  show ?thesis
    using assms(1,2) len l r unfolding Vector_inv_nth by simp
qed

section \<open>Facts about move assignment and the loop of Erase\<close>

lemma same_liveness_nth:
  assumes m: "map shape xs' = map shape xs" and j: "j < length xs"
  shows "is_live (xs' ! j) = is_live (xs ! j)"
  using same_shape_nth [OF m j] by (simp add: is_live_shape)

lemma map_is_live_update:
  "i < length xs \<Longrightarrow> is_live (xs ! i) \<Longrightarrow> is_live s \<Longrightarrow>
     map shape (xs[i := s]) = map shape xs"
  by (intro nth_equalityI) (auto simp: nth_list_update is_live_shape)

lemma move_assign_elem_None:
  "move_assign_elem tr xs i j e = (None, xs', e') \<Longrightarrow> i \<noteq> j \<Longrightarrow>
     i < length xs \<and> j < length xs \<and> is_live (xs ! i) \<and> is_live (xs ! j) \<and>
     length xs' = length xs \<and> map shape xs' = map shape xs \<and>
     xs' ! j = xs ! i \<and> (\<forall>m. m \<noteq> i \<and> m \<noteq> j \<longrightarrow> xs' ! m = xs ! m) \<and>
     ctors e' = ctors e \<and> dtors e' = dtors e \<and> raw_dtors e' = raw_dtors e"
proof -
  assume r: "move_assign_elem tr xs i j e = (None, xs', e')" and ij: "i \<noteq> j"
  from r obtain x y where x: "read_live xs i = Some x" and y: "read_live xs j = Some y"
    by (auto simp: move_assign_elem_def split: option.splits)
  from r x y have a: "attempt e = (False, e')"
    and xs': "xs' = xs[j := Live x, i := Live (moved_from tr x)]"
    by (auto simp: move_assign_elem_def split: prod.splits if_splits)
  from x y have b: "i < length xs" "j < length xs" "xs ! i = Live x" "xs ! j = Live y"
    by (simp_all add: read_live_Some)
  have "map shape (xs[j := Live x]) = map shape xs"
    using b by (intro map_is_live_update) (simp_all add: is_live_simps)
  moreover have "map shape (xs[j := Live x, i := Live (moved_from tr x)]) =
      map shape (xs[j := Live x])"
    using b ij by (intro map_is_live_update) (simp_all add: is_live_simps)
  ultimately have l: "map shape xs' = map shape xs" using xs' by simp
  show ?thesis using b ij xs' l attempt_counters [OF a] by (simp add: is_live_simps)
qed

lemma move_assign_elem_total:
  assumes "i < length xs" "j < length xs" "is_live (xs ! i)" "is_live (xs ! j)" "nothing_throws e"
  shows "\<exists>xs' e'. move_assign_elem tr xs i j e = (None, xs', e') \<and> nothing_throws e'"
proof -
  obtain x where x: "xs ! i = Live x" using assms(3) by (auto simp: is_live_iff)
  obtain y where y: "xs ! j = Live y" using assms(4) by (auto simp: is_live_iff)
  obtain e1 where a: "attempt e = (False, e1)" and n1: "nothing_throws e1"
    using attempt_nothing_throws [OF assms(5)] by blast
  show ?thesis using assms(1,2) x y a n1 by (auto simp: move_assign_elem_def read_live_def)
qed

text \<open>The loop of std::move as Erase calls it: the source range starts one slot after the target.\<close>

lemma std_move_loop_shift_None:
  "std_move_loop tr xs (Suc d) d n e = (None, xs', e') \<Longrightarrow>
     length xs' = length xs \<and> map shape xs' = map shape xs \<and>
     (0 < n \<longrightarrow> d + n < length xs \<and> (\<forall>j. d \<le> j \<and> j \<le> d + n \<longrightarrow> is_live (xs ! j))) \<and>
     (\<forall>j<length xs. j \<noteq> d + n \<longrightarrow>
        xs' ! j = (if d \<le> j \<and> j < d + n then xs ! Suc j else xs ! j)) \<and>
     (n = 0 \<longrightarrow> xs' = xs) \<and>
     ctors e' = ctors e \<and> dtors e' = dtors e \<and> raw_dtors e' = raw_dtors e"
proof (induction n arbitrary: d xs e)
  case 0
  then show ?case by auto
next
  case (Suc n)
  obtain r xs1 e1 where s: "move_assign_elem tr xs (Suc d) d e = (r, xs1, e1)"
    by (cases "move_assign_elem tr xs (Suc d) d e")
  with Suc.prems have rn: "r = None"
    by (cases r) (auto split: prod.splits)
  with s Suc.prems have rest: "std_move_loop tr xs1 (Suc (Suc d)) (Suc d) n e1 = (None, xs', e')"
    by simp
  have a: "Suc d < length xs \<and> d < length xs \<and> is_live (xs ! Suc d) \<and> is_live (xs ! d) \<and>
     length xs1 = length xs \<and> map shape xs1 = map shape xs \<and>
     xs1 ! d = xs ! Suc d \<and> (\<forall>m. m \<noteq> Suc d \<and> m \<noteq> d \<longrightarrow> xs1 ! m = xs ! m) \<and>
     ctors e1 = ctors e \<and> dtors e1 = dtors e \<and> raw_dtors e1 = raw_dtors e"
    by (rule move_assign_elem_None [OF s [unfolded rn]]) simp
  note b = Suc.IH [OF rest]
  have live1: "is_live (xs1 ! j) = is_live (xs ! j)" if "j < length xs" for j
    using a that by (intro same_liveness_nth) simp_all
  have bounds: "d + Suc n < length xs"
    using a b by (cases n) auto
  have lives: "\<forall>j. d \<le> j \<and> j \<le> d + Suc n \<longrightarrow> is_live (xs ! j)"
  proof (intro allI impI)
    fix j assume j: "d \<le> j \<and> j \<le> d + Suc n"
    show "is_live (xs ! j)"
    proof (cases "j \<le> Suc d")
      case True
      with j have "j = d \<or> j = Suc d" by auto
      then show ?thesis using a by auto
    next
      case False
      with j have n0: "0 < n" and j1: "Suc d \<le> j \<and> j \<le> Suc d + n" by auto
      with b have "is_live (xs1 ! j)" by simp
      moreover have "j < length xs" using j bounds by simp
      ultimately show ?thesis using live1 by simp
    qed
  qed
  have nth: "\<forall>j<length xs. j \<noteq> d + Suc n \<longrightarrow>
        xs' ! j = (if d \<le> j \<and> j < d + Suc n then xs ! Suc j else xs ! j)"
  proof (intro allI impI)
    fix j assume j: "j < length xs" "j \<noteq> d + Suc n"
    then have "xs' ! j = (if Suc d \<le> j \<and> j < Suc d + n then xs1 ! Suc j else xs1 ! j)"
      using a b by simp
    then show "xs' ! j = (if d \<le> j \<and> j < d + Suc n then xs ! Suc j else xs ! j)"
      using a j by (cases "j = d") auto
  qed
  show ?case using a b bounds lives nth by simp
qed

lemma std_move_loop_shift_total:
  "nothing_throws e \<Longrightarrow> d + n < length xs \<Longrightarrow>
   (\<forall>j. d \<le> j \<and> j \<le> d + n \<longrightarrow> is_live (xs ! j)) \<Longrightarrow>
   \<exists>xs' e'. std_move_loop tr xs (Suc d) d n e = (None, xs', e') \<and> nothing_throws e'"
proof (induction n arbitrary: d xs e)
  case 0
  then show ?case by simp
next
  case (Suc n)
  have "\<exists>xs1 e1. move_assign_elem tr xs (Suc d) d e = (None, xs1, e1) \<and> nothing_throws e1"
    using Suc.prems by (intro move_assign_elem_total) auto
  then obtain xs1 e1 where s: "move_assign_elem tr xs (Suc d) d e = (None, xs1, e1)"
    and n1: "nothing_throws e1" by blast
  have a: "Suc d < length xs \<and> d < length xs \<and> is_live (xs ! Suc d) \<and> is_live (xs ! d) \<and>
     length xs1 = length xs \<and> map shape xs1 = map shape xs \<and>
     xs1 ! d = xs ! Suc d \<and> (\<forall>m. m \<noteq> Suc d \<and> m \<noteq> d \<longrightarrow> xs1 ! m = xs ! m) \<and>
     ctors e1 = ctors e \<and> dtors e1 = dtors e \<and> raw_dtors e1 = raw_dtors e"
    by (rule move_assign_elem_None [OF s]) simp
  have live1: "is_live (xs1 ! j) = is_live (xs ! j)" if "j < length xs" for j
    using a that by (intro same_liveness_nth) simp_all
  have "\<exists>xs' e'. std_move_loop tr xs1 (Suc (Suc d)) (Suc d) n e1 = (None, xs', e') \<and>
          nothing_throws e'"
    using n1 Suc.prems(2,3) a live1 by (intro Suc.IH) auto
  then show ?case using s by simp
qed

section \<open>Running the model on concrete inputs\<close>

text \<open>
  The loops are defined by recursion on the count; these equations unfold them at a
  count given as a numeral.
\<close>

lemma destroy_n_unfold:
  "0 < n \<Longrightarrow> destroy_n xs first n e =
     (case destroy_at xs first e of (xs', e') \<Rightarrow> destroy_n xs' (Suc first) (n - 1) e')"
proof -
  assume "0 < n"
  then obtain m where n: "n = Suc m" by (cases n) auto
  show ?thesis unfolding n diff_Suc_1 by simp
qed

lemma uninitialized_copy_loop_unfold:
  "0 < n \<Longrightarrow> uninitialized_copy_loop src first dst d_first k n e =
     (case copy_construct src (first + k) dst (d_first + k) e of
        (Some err, dst', e') \<Rightarrow>
          (case destroy_n dst' d_first k e' of (dst'', e'') \<Rightarrow> (Some err, dst'', e''))
      | (None, dst', e') \<Rightarrow> uninitialized_copy_loop src first dst' d_first (Suc k) (n - 1) e')"
proof -
  assume "0 < n"
  then obtain m where n: "n = Suc m" by (cases n) auto
  show ?thesis unfolding n diff_Suc_1 by simp
qed

lemma uninitialized_move_loop_unfold:
  "0 < n \<Longrightarrow> uninitialized_move_loop tr src first dst d_first k n e =
     (case move_construct tr src (first + k) dst (d_first + k) e of
        (Some err, src', dst', e') \<Rightarrow>
          (case destroy_n dst' d_first k e' of (dst'', e'') \<Rightarrow> (Some err, src', dst'', e''))
      | (None, src', dst', e') \<Rightarrow>
          uninitialized_move_loop tr src' first dst' d_first (Suc k) (n - 1) e')"
proof -
  assume "0 < n"
  then obtain m where n: "n = Suc m" by (cases n) auto
  show ?thesis unfolding n diff_Suc_1 by simp
qed

lemma std_move_loop_unfold:
  "0 < n \<Longrightarrow> std_move_loop tr xs first d_first n e =
     (case move_assign_elem tr xs first d_first e of
        (Some err, xs', e') \<Rightarrow> (Some err, xs', e')
      | (None, xs', e') \<Rightarrow> std_move_loop tr xs' (Suc first) (Suc d_first) (n - 1) e')"
proof -
  assume "0 < n"
  then obtain m where n: "n = Suc m" by (cases n) auto
  show ?thesis unfolding n diff_Suc_1 by simp
qed

lemma copy_assign_loop_unfold:
  "0 < n \<Longrightarrow> copy_assign_loop rdata d i n e =
     (if \<not> (RawMemory_index_ok d i \<and> RawMemory_index_ok rdata i)
      then (Some AssertionFailure, d, i, e)
      else
        (case copy_assign_elem rdata i d i e of
           (Some err, d', e') \<Rightarrow> (Some err, d', i, e')
         | (None, d', e') \<Rightarrow> copy_assign_loop rdata d' (Suc i) (n - 1) e'))"
proof -
  assume "0 < n"
  then obtain m where n: "n = Suc m" by (cases n) auto
  show ?thesis unfolding n diff_Suc_1 by simp
qed

lemma replicate_unfold: "0 < n \<Longrightarrow> replicate n x = x # replicate (n - 1) x"
  by (cases n) simp_all

lemmas run_defs = replicate_unfold
  attempt_def read_live_def construct_at_def copy_construct_def move_construct_def
  copy_assign_elem_def move_assign_elem_def destroy_at_def
  uninitialized_copy_n_def uninitialized_move_n_def std_move_def
  destroy_n_unfold uninitialized_copy_loop_unfold uninitialized_move_loop_unfold
  std_move_loop_unfold copy_assign_loop_unfold
  Allocate_def Deallocate_def RawMemory_ctor_def RawMemory_dtor_def RawMemory_Capacity_def
  RawMemory_plus_ok_def RawMemory_index_ok_def size_t_mult_def
  Size_def Capacity_def cbegin_def cend_def elements_def Vector_inv_def is_live_def
  Emplace_assertion_def Erase_assertion_def int_traits_def env_of_def
  block_of_def arg_value_def construct_from_def

text \<open>
  Emplace inside the capacity reads a reference to an element after the elements were
  shifted: in \<open>[1, 2, 3]\<close> of capacity 4, \<^verbatim>\<open>v.Emplace(v.begin() + 1, v[2])\<close> inserts the 2
  that slot 2 holds by then, where the value 3 of the caller's own is inserted as it is.
\<close>

lemma move_backward_loop_unfold:
  "0 < n \<Longrightarrow> move_backward_loop tr xs lst d_last n e =
     (if lst = 0 \<or> d_last = 0 then (Some UndefinedBehaviour, xs, e)
      else
        (case move_assign_elem tr xs (lst - 1) (d_last - 1) e of
           (Some err, xs', e') \<Rightarrow> (Some err, xs', e')
         | (None, xs', e') \<Rightarrow> move_backward_loop tr xs' (lst - 1) (d_last - 1) (n - 1) e'))"
proof -
  assume "0 < n"
  then obtain m where n: "n = Suc m" by (cases n) auto
  show ?thesis unfolding n diff_Suc_1 by simp
qed

lemma Emplace_in_place_reference:
  "Emplace int_traits 1 (Element 2) \<lparr>m_data = [Live 1, Live 2, Live 3, Raw], m_size = 3\<rparr>
     (env_of 3 []) =
   (Inr 1, \<lparr>m_data = [Live 1, Live 2, Live 2, Live 3], m_size = 4\<rparr>,
    \<lparr>ctors = 5, dtors = 1, raw_dtors = 0, allocs = 0, deallocs = 0, plan = []\<rparr>)"
  "Emplace int_traits 1 (Value 3) \<lparr>m_data = [Live 1, Live 2, Live 3, Raw], m_size = 3\<rparr>
     (env_of 3 []) =
   (Inr 1, \<lparr>m_data = [Live 1, Live 3, Live 2, Live 3], m_size = 4\<rparr>,
    \<lparr>ctors = 5, dtors = 1, raw_dtors = 0, allocs = 0, deallocs = 0, plan = []\<rparr>)"
  by (simp_all add: Emplace_def move_construct_within_def move_backward_def
      move_backward_loop_unfold move_assign_value_def run_defs)

section \<open>Copy assignment inside the capacity\<close>

text \<open>
  Claim C1. The claim asks that, when the target has room and fewer elements than \<open>rhs\<close>,
  the new slots \<open>[target.Size(), rhs.Size())\<close> are copy-constructed from the same slots of
  \<open>rhs\<close>, so that the target ends equal to \<open>rhs\<close>. The code passes the start of the buffer
  of \<open>rhs\<close> to \<^verbatim>\<open>uninitialized_copy_n\<close>, not the start plus \<open>i\<close>: the new slots receive the
  first elements of \<open>rhs\<close> again. With the target \<open>[1]\<close> of capacity 3 and \<open>rhs = [7, 8, 9]\<close>
  the assignment returns normally and leaves \<open>[7, 7, 8]\<close> in the target.
\<close>

theorem copy_assign_new_slots_from_front:
  "Vector_copy_assign int_traits 0 1
     (two_vectors \<lparr>m_data = [Live (1 :: int), Raw, Raw], m_size = 1\<rparr>
                  \<lparr>m_data = [Live 7, Live 8, Live 9], m_size = 3\<rparr>) (env_of 4 []) =
   (None,
    two_vectors \<lparr>m_data = [Live 7, Live 7, Live 8], m_size = 3\<rparr>
                \<lparr>m_data = [Live 7, Live 8, Live 9], m_size = 3\<rparr>,
    env_of 6 [])
   \<and> elements \<lparr>m_data = [Live 7, Live 7, Live 8 :: int slot], m_size = 3\<rparr> \<noteq>
      elements \<lparr>m_data = [Live 7, Live 8, Live 9], m_size = 3\<rparr>"
  by (simp add: Vector_copy_assign_def copy_assign_def two_vectors_def fun_eq_iff run_defs)

section \<open>Move assignment and the count of live elements\<close>

text \<open>
  Claim C2. The claim asks that constructions minus destructions equal the number of
  live elements after every operation, and in particular that move assignment does not
  leave the former elements of the target undestroyed. Move assignment swaps the buffers
  and sets the size of \<open>rhs\<close> to 0 without destroying anything: the former elements of the
  target sit in the buffer of \<open>rhs\<close>, beyond its size, and no destructor ever reaches them.
  With the target \<open>[1, 2]\<close> and \<open>rhs = [3]\<close>, three elements constructed: after the
  assignment the sizes add up to 1 and no element was destroyed, and after the
  destructors of both Vectors three constructions face one destruction.
\<close>

theorem move_assign_leaks_target_elements:
  "Vector_move_assign 0 1
     (two_vectors \<lparr>m_data = [Live 1, Live 2], m_size = 2\<rparr> \<lparr>m_data = [Live (3 :: int)], m_size = 1\<rparr>) =
   two_vectors \<lparr>m_data = [Live 3], m_size = 1\<rparr> \<lparr>m_data = [Live 1, Live 2], m_size = 0\<rparr>
   \<and> Size \<lparr>m_data = [Live (3 :: int)], m_size = 1\<rparr> +
     Size \<lparr>m_data = [Live 1, Live (2 :: int)], m_size = 0\<rparr> = 1
   \<and> ctors (Vector_dtor \<lparr>m_data = [Live 1, Live (2 :: int)], m_size = 0\<rparr>
        (Vector_dtor \<lparr>m_data = [Live (3 :: int)], m_size = 1\<rparr> (env_of 3 []))) = 3
   \<and> dtors (Vector_dtor \<lparr>m_data = [Live 1, Live (2 :: int)], m_size = 0\<rparr>
        (Vector_dtor \<lparr>m_data = [Live (3 :: int)], m_size = 1\<rparr> (env_of 3 []))) = 1"
  by (simp add: Vector_move_assign_def two_vectors_def Vector_dtor_def fun_eq_iff run_defs)

section \<open>Growing Emplace when the relocation of the prefix throws\<close>

text \<open>
  Claim C3. The claim asks that a failed relocation destroys exactly what was placed in
  the new block and the new element, each once, and no raw slot, also when the failure
  comes while the prefix is relocated. \<^verbatim>\<open>uninitialized_copy_n\<close> destroys what it had
  constructed before it lets the exception go; the handler of Emplace then destroys the
  first \<open>index\<close> slots of the new block all the same. With the Vector \<open>[1, 2]\<close> (size and
  capacity 2), Emplace at the end and the copy of the second element throwing: two
  elements are constructed in the new block (the new element and the copy of the first),
  four destructor calls are made, two of them on slots that hold no live element (slot 0,
  destroyed before, and slot 1, never constructed). The Vector itself is unchanged and
  the new block is released.
\<close>

theorem Emplace_growing_prefix_failure:
  "Emplace int_traits 2 (Value 9) \<lparr>m_data = [Live 1, Live 2], m_size = 2\<rparr>
     (env_of 2 [False, False, False, True]) =
   (Inl ElementOperationFailure, \<lparr>m_data = [Live 1, Live 2], m_size = 2\<rparr>,
    \<lparr>ctors = 4, dtors = 4, raw_dtors = 2, allocs = 1, deallocs = 1, plan = []\<rparr>)"
  by (simp add: Emplace_def run_defs)

section \<open>The assertion of Erase\<close>

text \<open>
  Claim C4. The claim asks that the assertion at the head of Erase rejects \<open>pos = end()\<close>.
  The assertion is \<^verbatim>\<open>pos >= cbegin() && pos <= cend()\<close>, the one of Emplace: it holds for
  \<open>end()\<close> of every Vector, the empty one included, and Erase goes on to
  \<^verbatim>\<open>std::move(begin + index + 1, end(), ...)\<close> with a first iterator behind the last.
\<close>

theorem Erase_assertion_admits_end:
  "Erase_assertion v (cend v) \<and> fst (Erase tr (cend v) v e) = Inl UndefinedBehaviour
   \<and> fst (Erase int_traits (cend Vector_default) Vector_default (env_of 0 [])) =
       Inl UndefinedBehaviour"
  by (simp add: Erase_def Erase_assertion_def cbegin_def cend_def std_move_def Vector_default_def)

section \<open>Reserve\<close>

lemma Reserve_success:
  assumes inv: "Vector_inv v" and k: "Capacity v < k"
    and r: "Reserve tr k v e = (None, v', e')"
  shows "Capacity v' = k \<and> Size v' = Size v \<and> elements v' = elements v \<and>
         (allocation_fits tr k \<longrightarrow> Vector_inv v')"
proof -
  let ?n = "m_size v"
  note n = Vector_inv_live(1) [OF inv] and live = Vector_inv_live(2) [OF inv]
  from k have k': "\<not> k \<le> RawMemory_Capacity (m_data v)" "length (m_data v) < k"
    by (simp_all add: Capacity_def RawMemory_Capacity_def)
  obtain a e1 where al: "(RawMemory_ctor tr k e :: (error + 'a RawMemory) \<times> env) = (a, e1)"
    by (cases "RawMemory_ctor tr k e :: (error + 'a RawMemory) \<times> env")
  have "\<exists>nd'. v' = v\<lparr>m_data := nd'\<rparr> \<and> length nd' = k \<and>
          (\<forall>j<k. nd' ! j = (if j < ?n then m_data v ! j else block_of tr k ! j))"
  proof (cases a)
    case (Inl err)
    with r k' al show ?thesis by (simp add: Reserve_def)
  next
    case (Inr nd)
    with al have nd: "nd = block_of tr k" by (simp add: RawMemory_ctor_Inr)
    have lnd: "length nd = k" unfolding nd by (rule length_block_of)
    show ?thesis
    proof (cases "nothrow_move_constructible tr \<or> \<not> copy_constructible tr")
      case True
      obtain q d nd' e2 where
        m: "uninitialized_move_loop tr (m_data v) 0 nd 0 0 ?n e1 = (q, d, nd', e2)"
        by (cases "uninitialized_move_loop tr (m_data v) 0 nd 0 0 ?n e1")
      with r k' al Inr True have q: "q = None"
        by (cases q) (auto simp: Reserve_def uninitialized_move_n_def split: prod.splits)
      from r k' al Inr True m q have v': "v' = v\<lparr>m_data := nd'\<rparr>"
        by (auto simp: Reserve_def uninitialized_move_n_def split: prod.splits)
      note b = uninitialized_move_loop_None [OF m [unfolded q]]
      show ?thesis using v' b nd lnd by auto
    next
      case False
      obtain q nd' e2 where
        m: "uninitialized_copy_loop (m_data v) 0 nd 0 0 ?n e1 = (q, nd', e2)"
        by (cases "uninitialized_copy_loop (m_data v) 0 nd 0 0 ?n e1")
      with r k' al Inr False have q: "q = None"
        by (cases q) (auto simp: Reserve_def uninitialized_copy_n_def split: prod.splits)
      from r k' al Inr False m q have v': "v' = v\<lparr>m_data := nd'\<rparr>"
        by (auto simp: Reserve_def uninitialized_copy_n_def split: prod.splits)
      note b = uninitialized_copy_loop_None [OF m [unfolded q]]
      show ?thesis using v' b nd lnd by auto
    qed
  qed
  then obtain nd' where v': "v' = v\<lparr>m_data := nd'\<rparr>" and len: "length nd' = k"
    and nth: "\<forall>j<k. nd' ! j = (if j < ?n then m_data v ! j else block_of tr k ! j)" by blast
  have el: "take ?n nd' = take ?n (m_data v)"
    using n k' len nth by (intro relocated_prefix [where rest = "\<lambda>j. block_of tr k ! j"]) auto
  have iv: "Vector_inv v'" if "allocation_fits tr k"
  proof -
    have "block_of tr k = replicate k Raw" using that by (rule block_of_fits)
    then show ?thesis
      unfolding Vector_inv_nth using v' len nth n k' live by auto
  qed
  show ?thesis using v' len el iv
    by (simp add: Capacity_def RawMemory_Capacity_def Size_def elements_def)
qed

lemma Reserve_total:
  assumes inv: "Vector_inv v" and nt: "nothing_throws e"
    and f: "Capacity v < k \<longrightarrow> allocation_fits tr k"
  shows "fst (Reserve tr k v e) = None"
proof (cases "k \<le> RawMemory_Capacity (m_data v)")
  case True
  then show ?thesis by (simp add: Reserve_def)
next
  case False
  let ?n = "m_size v"
  note n = Vector_inv_live(1) [OF inv] and live = Vector_inv_live(2) [OF inv]
  from False have k': "length (m_data v) < k" by (simp add: RawMemory_Capacity_def)
  with f have "allocation_fits tr k" by (simp add: Capacity_def RawMemory_Capacity_def)
  then have blk: "block_of tr k = replicate k Raw" by (rule block_of_fits)
  obtain e1 where al: "RawMemory_ctor tr k e = (Inr (replicate k Raw), e1)"
    and n1: "nothing_throws e1"
    using RawMemory_ctor_total [OF nt, of tr k] unfolding blk by blast
  show ?thesis
  proof (cases "nothrow_move_constructible tr \<or> \<not> copy_constructible tr")
    case True
    have "\<exists>src' dst' e'. uninitialized_move_loop tr (m_data v) 0 (replicate k Raw) 0 0 ?n e1 =
            (None, src', dst', e') \<and> nothing_throws e'"
      using n1 n k' live by (intro uninitialized_move_loop_total) auto
    then show ?thesis using False al True
      by (auto simp: Reserve_def uninitialized_move_n_def split: prod.splits)
  next
    case c: False
    have "\<exists>dst' e'. uninitialized_copy_loop (m_data v) 0 (replicate k Raw) 0 0 ?n e1 =
            (None, dst', e') \<and> nothing_throws e'"
      using n1 n k' live by (intro uninitialized_copy_loop_total) auto
    then show ?thesis using False al c
      by (auto simp: Reserve_def uninitialized_copy_n_def split: prod.splits)
  qed
qed

text \<open>
  When the request wraps around so far that the block has no room for one element, a
  Vector that holds an element cannot be relocated: the first construction is outside
  the block.
\<close>

lemma Reserve_wrapped:
  assumes inv: "Vector_inv v" and s: "0 < m_size v" and k: "Capacity v < k"
    and w: "size_t_mult k (sizeof_T tr) div sizeof_T tr = 0"
  shows "fst (Reserve tr k v e) \<noteq> None"
proof -
  let ?n = "m_size v"
  from s obtain m where m: "?n = Suc m" by (cases ?n) auto
  from k have k': "\<not> k \<le> RawMemory_Capacity (m_data v)" "0 < k"
    by (simp_all add: Capacity_def RawMemory_Capacity_def)
  obtain a e1 where al: "(RawMemory_ctor tr k e :: (error + 'a RawMemory) \<times> env) = (a, e1)"
    by (cases "RawMemory_ctor tr k e :: (error + 'a RawMemory) \<times> env")
  show ?thesis
  proof (cases a)
    case (Inl err)
    with k' al show ?thesis by (simp add: Reserve_def)
  next
    case (Inr nd)
    with al have "nd = block_of tr k" by (simp add: RawMemory_ctor_Inr)
    then have nd: "nd = replicate k OutOfBlock" using w by (simp add: block_of_def)
    have out: "fst (construct_at nd 0 x e2) = Some UndefinedBehaviour" for x e2
      using k' by (simp add: construct_at_def nd)
    have c: "fst (copy_construct (m_data v) 0 nd 0 e1) \<noteq> None"
      using out by (auto simp: copy_construct_def split: option.splits)
    have mv: "fst (move_construct tr (m_data v) 0 nd 0 e1) \<noteq> None"
      using k' by (auto simp: move_construct_def nd split: option.splits)
    show ?thesis
    proof (cases "nothrow_move_constructible tr \<or> \<not> copy_constructible tr")
      case True
      then show ?thesis using k' al Inr mv
        by (auto simp: Reserve_def uninitialized_move_n_def m split: prod.splits option.splits)
    next
      case False
      then show ?thesis using k' al Inr c
        by (auto simp: Reserve_def uninitialized_copy_n_def m split: prod.splits option.splits)
    qed
  qed
qed

text \<open>
  Claim C5. For a Vector that satisfies the invariant: \<open>Reserve k\<close> with \<open>k\<close> at most the
  capacity returns the Vector and the environment as they are; with a larger \<open>k\<close>, every
  normal return leaves a capacity of at least \<open>max k C\<close> and the same size and elements.
  When the request \<open>k * sizeof(T)\<close> does not wrap around in \<^verbatim>\<open>size_t\<close>, the Vector
  returned satisfies the invariant again, and Reserve does return normally when nothing
  throws. When it wraps around so that the block has no room for one element, Reserve
  on a Vector that is not empty does not return normally, whatever the plan: the
  relocation writes outside the block. The witness has both: a request of 5 elements of 4
  bytes, and one of \<open>2^62 = 4611686018427387904\<close> elements, whose byte count wraps to 0.
\<close>

theorem Reserve_spec:
  assumes "Vector_inv v"
  shows "(k \<le> Capacity v \<longrightarrow> Reserve tr k v e = (None, v, e)) \<and>
         (Capacity v < k \<longrightarrow>
            (\<forall>v' e'. Reserve tr k v e = (None, v', e') \<longrightarrow>
               max k (Capacity v) \<le> Capacity v' \<and> Size v' = Size v \<and>
               elements v' = elements v \<and> (allocation_fits tr k \<longrightarrow> Vector_inv v'))) \<and>
         (nothing_throws e \<and> (Capacity v < k \<longrightarrow> allocation_fits tr k) \<longrightarrow>
            fst (Reserve tr k v e) = None) \<and>
         (Capacity v < k \<and> 0 < Size v \<and> size_t_mult k (sizeof_T tr) div sizeof_T tr = 0 \<longrightarrow>
            fst (Reserve tr k v e) \<noteq> None)"
proof (intro conjI impI allI)
  assume "k \<le> Capacity v"
  then show "Reserve tr k v e = (None, v, e)"
    by (simp add: Reserve_def Capacity_def)
next
  fix v' e' assume k: "Capacity v < k" and r: "Reserve tr k v e = (None, v', e')"
  note s = Reserve_success [OF assms k r]
  show "max k (Capacity v) \<le> Capacity v'" using s k by simp
  show "Size v' = Size v" "elements v' = elements v" using s by simp_all
  assume "allocation_fits tr k"
  then show "Vector_inv v'" using s by simp
next
  assume "nothing_throws e \<and> (Capacity v < k \<longrightarrow> allocation_fits tr k)"
  then show "fst (Reserve tr k v e) = None" using Reserve_total [OF assms] by blast
next
  assume "Capacity v < k \<and> 0 < Size v \<and> size_t_mult k (sizeof_T tr) div sizeof_T tr = 0"
  then show "fst (Reserve tr k v e) \<noteq> None"
    using Reserve_wrapped [OF assms] by (simp add: Size_def)
qed

theorem Reserve_spec_witness:
  "Vector_inv \<lparr>m_data = [Live (1 :: int), Live 2, Raw], m_size = 2\<rparr>
   \<and> Capacity \<lparr>m_data = [Live (1 :: int), Live 2, Raw], m_size = 2\<rparr> < 5
   \<and> allocation_fits int_traits 5
   \<and> nothing_throws (env_of 2 [])
   \<and> Reserve int_traits 5 \<lparr>m_data = [Live 1, Live 2, Raw], m_size = 2\<rparr> (env_of 2 []) =
       (None, \<lparr>m_data = [Live 1, Live 2, Raw, Raw, Raw], m_size = 2\<rparr>,
        \<lparr>ctors = 4, dtors = 2, raw_dtors = 0, allocs = 1, deallocs = 1, plan = []\<rparr>)
   \<and> max 5 (Capacity \<lparr>m_data = [Live (1 :: int), Live 2, Raw], m_size = 2\<rparr>)
       \<le> Capacity \<lparr>m_data = [Live (1 :: int), Live 2, Raw, Raw, Raw], m_size = 2\<rparr>
   \<and> Size \<lparr>m_data = [Live (1 :: int), Live 2, Raw, Raw, Raw], m_size = 2\<rparr> =
       Size \<lparr>m_data = [Live (1 :: int), Live 2, Raw], m_size = 2\<rparr>
   \<and> elements \<lparr>m_data = [Live (1 :: int), Live 2, Raw, Raw, Raw], m_size = 2\<rparr> =
       elements \<lparr>m_data = [Live (1 :: int), Live 2, Raw], m_size = 2\<rparr>
   \<and> Vector_inv \<lparr>m_data = [Live (1 :: int), Live 2, Raw, Raw, Raw], m_size = 2\<rparr>
   \<and> Reserve int_traits 3 \<lparr>m_data = [Live 1, Live 2, Raw], m_size = 2\<rparr> (env_of 2 []) =
       (None, \<lparr>m_data = [Live 1, Live 2, Raw], m_size = 2\<rparr>, env_of 2 [])
   \<and> size_t_mult 4611686018427387904 (sizeof_T int_traits) div sizeof_T int_traits = 0
   \<and> Reserve int_traits 4611686018427387904 \<lparr>m_data = [Live 1, Live 2, Raw], m_size = 2\<rparr> (env_of 2 []) =
       (Some UndefinedBehaviour, \<lparr>m_data = [Live 1, Live 2, Raw], m_size = 2\<rparr>,
        \<lparr>ctors = 2, dtors = 0, raw_dtors = 0, allocs = 1, deallocs = 1, plan = []\<rparr>)"
proof -
  let ?v = "\<lparr>m_data = [Live (1 :: int), Live 2, Raw], m_size = 2\<rparr>"
  have inv: "Vector_inv ?v" by (simp add: run_defs)
  have run: "Reserve int_traits 5 ?v (env_of 2 []) =
       (None, \<lparr>m_data = [Live 1, Live 2, Raw, Raw, Raw], m_size = 2\<rparr>,
        \<lparr>ctors = 4, dtors = 2, raw_dtors = 0, allocs = 1, deallocs = 1, plan = []\<rparr>)"
    by (simp add: Reserve_def run_defs replicate_unfold)
  have nt: "nothing_throws (env_of 2 [])" by (simp add: nothing_throws_def env_of_def)
  have c: "Capacity ?v < 5" "3 \<le> Capacity ?v"
    by (simp_all add: run_defs)
  have tr: "\<not> nothrow_move_constructible int_traits" "copy_constructible int_traits"
    by (simp_all add: int_traits_def)
  have f: "allocation_fits int_traits 5" by (simp add: allocation_fits_def int_traits_def)
  have w: "size_t_mult 4611686018427387904 (sizeof_T int_traits) div sizeof_T int_traits = 0"
    by (simp add: size_t_mult_def int_traits_def)
  have blk: "block_of int_traits 4611686018427387904 =
      replicate 4611686018427387904 OutOfBlock"
    using w by (simp add: block_of_def)
  have wrapped: "Reserve int_traits 4611686018427387904 ?v (env_of 2 []) =
       (Some UndefinedBehaviour, ?v,
        \<lparr>ctors = 2, dtors = 0, raw_dtors = 0, allocs = 1, deallocs = 1, plan = []\<rparr>)"
    by (simp add: Reserve_def Allocate_def RawMemory_ctor_def blk uninitialized_copy_n_def
        uninitialized_copy_loop_unfold copy_construct_def construct_at_def read_live_def
        attempt_def RawMemory_Capacity_def RawMemory_dtor_def Deallocate_def tr env_of_def)
  let ?v1 = "\<lparr>m_data = [Live (1 :: int), Live 2, Raw, Raw, Raw], m_size = 2\<rparr>"
  note s5 = Reserve_spec [OF inv, of 5 int_traits "env_of 2 []"]
  from s5 c(1) run f have p: "max 5 (Capacity ?v) \<le> Capacity ?v1" "Size ?v1 = Size ?v"
    "elements ?v1 = elements ?v" "Vector_inv ?v1"
    by blast+
  note s3 = Reserve_spec [OF inv, of 3 int_traits "env_of 2 []"]
  from s3 c(2) have q: "Reserve int_traits 3 ?v (env_of 2 []) = (None, ?v, env_of 2 [])"
    by blast
  show ?thesis
    by (intro conjI inv c(1) f nt run p q w wrapped)
qed

section \<open>Appending\<close>

lemma growth_capacity:
  "n < 2 ^ 63 \<Longrightarrow> (if n = 0 then 1 else size_t_mult n 2) = max 1 (2 * n)"
  by (auto simp: size_t_mult_def)

lemma appended_prefix:
  assumes "n \<le> length src" "n < length nd'"
    and "\<forall>j<length nd'. nd' ! j = (if j < n then src ! j else if j = n then s else rest j)"
  shows "take (Suc n) nd' = take n src @ [s]"
proof -
  have "take n nd' = take n src"
    using assms by (intro nth_equalityI) auto
  moreover have "nd' ! n = s" using assms by simp
  ultimately show ?thesis using assms(2) by (simp add: take_Suc_conv_app_nth)
qed

lemma EmplaceBack_success:
  assumes inv: "Vector_inv v" and c: "Size v < 2 ^ 63"
    and r: "EmplaceBack tr x v e = (Inr i, v', e')"
  shows "i = m_size v \<and> m_size v' = Suc (m_size v) \<and>
         take (Suc (m_size v)) (m_data v') = take (m_size v) (m_data v) @ [Live x] \<and>
         length (m_data v') =
           (if m_size v = length (m_data v) then max 1 (2 * length (m_data v)) else length (m_data v)) \<and>
         ((m_size v = length (m_data v) \<longrightarrow> allocation_fits tr (max 1 (2 * m_size v))) \<longrightarrow>
            Vector_inv v')"
proof -
  let ?n = "m_size v"
  let ?fits = "?n = length (m_data v) \<longrightarrow> allocation_fits tr (max 1 (2 * ?n))"
  note n = Vector_inv_live(1) [OF inv] and live = Vector_inv_live(2) [OF inv]
    and raw = Vector_inv_live(3) [OF inv]
  have "\<exists>d N base. v' = \<lparr>m_data = d, m_size = Suc ?n\<rparr> \<and> i = ?n \<and> length d = N \<and> ?n < N \<and>
          N = (if ?n = length (m_data v) then max 1 (2 * length (m_data v)) else length (m_data v)) \<and>
          (\<forall>j<N. d ! j = (if j < ?n then m_data v ! j else if j = ?n then Live x else base j)) \<and>
          (?fits \<longrightarrow> (\<forall>j<N. ?n < j \<longrightarrow> base j = Raw))"
  proof (cases "?n = length (m_data v)")
    case g: True
    let ?N = "max 1 (2 * ?n)"
    have N: "(if ?n = 0 then 1 else size_t_mult ?n 2) = ?N"
      using c by (intro growth_capacity) (simp add: Size_def)
    obtain a e1 where al: "(RawMemory_ctor tr ?N e :: (error + 'a RawMemory) \<times> env) = (a, e1)"
      by (cases "RawMemory_ctor tr ?N e :: (error + 'a RawMemory) \<times> env")
    show ?thesis
    proof (cases a)
      case (Inl err)
      with r g al N show ?thesis by (simp add: EmplaceBack_def RawMemory_Capacity_def)
    next
      case (Inr nd0)
      with al have nd0: "nd0 = block_of tr ?N" by (simp add: RawMemory_ctor_Inr)
      have lnd0: "length nd0 = ?N" unfolding nd0 by (rule length_block_of)
      have ok: "RawMemory_plus_ok nd0 ?n"
        by (simp add: RawMemory_plus_ok_def RawMemory_Capacity_def lnd0)
      obtain q nd e2 where ca: "construct_at nd0 ?n x e1 = (q, nd, e2)"
        by (cases "construct_at nd0 ?n x e1")
      from r g al N Inr ok ca have q: "q = None"
        by (cases q) (auto simp: EmplaceBack_def RawMemory_Capacity_def)
      note cn = construct_at_None [OF ca [unfolded q]]
      have base: "?fits \<longrightarrow> (\<forall>j<?N. ?n < j \<longrightarrow> nd0 ! j = Raw)"
        using g by (auto simp: nd0 block_of_fits)
      have "\<exists>nd'. v' = \<lparr>m_data = nd', m_size = Suc ?n\<rparr> \<and> i = ?n \<and> length nd' = length nd \<and>
              (\<forall>j<length nd. nd' ! j = (if j < ?n then m_data v ! j else nd ! j))"
      proof (cases "nothrow_move_constructible tr \<or> \<not> copy_constructible tr")
        case True
        obtain p d nd' e3 where
          m: "uninitialized_move_loop tr (m_data v) 0 nd 0 0 ?n e2 = (p, d, nd', e3)"
          by (cases "uninitialized_move_loop tr (m_data v) 0 nd 0 0 ?n e2")
        with r g al N Inr ok ca q True have p: "p = None"
          by (cases p) (auto simp: EmplaceBack_def RawMemory_Capacity_def uninitialized_move_n_def
              split: prod.splits)
        from r g al N Inr ok ca q True m p have v': "v' = \<lparr>m_data = nd', m_size = Suc ?n\<rparr>" "i = ?n"
          by (auto simp: EmplaceBack_def RawMemory_Capacity_def uninitialized_move_n_def
              split: prod.splits)
        note b = uninitialized_move_loop_None [OF m [unfolded p]]
        show ?thesis using v' b by auto
      next
        case False
        obtain p nd' e3 where
          m: "uninitialized_copy_loop (m_data v) 0 nd 0 0 ?n e2 = (p, nd', e3)"
          by (cases "uninitialized_copy_loop (m_data v) 0 nd 0 0 ?n e2")
        with r g al N Inr ok ca q False have p: "p = None"
          by (cases p) (auto simp: EmplaceBack_def RawMemory_Capacity_def uninitialized_copy_n_def
              split: prod.splits)
        from r g al N Inr ok ca q False m p have v': "v' = \<lparr>m_data = nd', m_size = Suc ?n\<rparr>" "i = ?n"
          by (auto simp: EmplaceBack_def RawMemory_Capacity_def uninitialized_copy_n_def
              split: prod.splits)
        note b = uninitialized_copy_loop_None [OF m [unfolded p]]
        show ?thesis using v' b by auto
      qed
      then obtain nd' where v': "v' = \<lparr>m_data = nd', m_size = Suc ?n\<rparr>" "i = ?n"
        and len: "length nd' = length nd"
        and nth: "\<forall>j<length nd. nd' ! j = (if j < ?n then m_data v ! j else nd ! j)" by blast
      have "\<forall>j<?N. nd' ! j = (if j < ?n then m_data v ! j else if j = ?n then Live x else nd0 ! j)"
        using nth cn lnd0 by (auto simp: nth_list_update)
      then show ?thesis using v' len cn lnd0 g base by (intro exI [of _ nd'] exI [of _ ?N] exI [of _ "\<lambda>j. nd0 ! j"]) simp
    qed
  next
    case ng: False
    obtain q d e1 where ca: "construct_at (m_data v) ?n x e = (q, d, e1)"
      by (cases "construct_at (m_data v) ?n x e")
    from r ng ca have q: "q = None"
      by (cases q) (auto simp: EmplaceBack_def RawMemory_Capacity_def split: if_splits)
    from r ng ca q have v': "v' = \<lparr>m_data = d, m_size = Suc ?n\<rparr>" "i = ?n"
      by (auto simp: EmplaceBack_def RawMemory_Capacity_def split: if_splits)
    note cn = construct_at_None [OF ca [unfolded q]]
    have "\<forall>j<length (m_data v). d ! j = (if j < ?n then m_data v ! j else if j = ?n then Live x else Raw)"
      using cn raw by (auto simp: nth_list_update)
    then show ?thesis using v' cn ng
      by (intro exI [of _ d] exI [of _ "length (m_data v)"] exI [of _ "\<lambda>j. Raw"]) simp
  qed
  then obtain d N base where v': "v' = \<lparr>m_data = d, m_size = Suc ?n\<rparr>" and i: "i = ?n"
    and len: "length d = N" and nN: "?n < N"
    and N: "N = (if ?n = length (m_data v) then max 1 (2 * length (m_data v)) else length (m_data v))"
    and nth: "\<forall>j<N. d ! j = (if j < ?n then m_data v ! j else if j = ?n then Live x else base j)"
    and base: "?fits \<longrightarrow> (\<forall>j<N. ?n < j \<longrightarrow> base j = Raw)"
    by blast
  have el: "take (Suc ?n) d = take ?n (m_data v) @ [Live x]"
    using n nN len nth by (intro appended_prefix [where rest = base]) auto
  have iv: "Vector_inv v'" if "?fits"
  proof -
    from that base have "\<forall>j<N. ?n < j \<longrightarrow> base j = Raw" by blast
    then show ?thesis
      unfolding Vector_inv_nth using v' len nth nN live n by (auto simp: is_live_simps)
  qed
  show ?thesis using v' i len N el iv by simp
qed

lemma EmplaceBack_total:
  assumes inv: "Vector_inv v" and c: "Size v < 2 ^ 63" and nt: "nothing_throws e"
    and f: "m_size v = length (m_data v) \<longrightarrow> allocation_fits tr (max 1 (2 * m_size v))"
  shows "\<exists>i v' e'. EmplaceBack tr x v e = (Inr i, v', e')"
proof -
  let ?n = "m_size v"
  note n = Vector_inv_live(1) [OF inv] and live = Vector_inv_live(2) [OF inv]
    and raw = Vector_inv_live(3) [OF inv]
  show ?thesis
  proof (cases "?n = length (m_data v)")
    case g: True
    let ?N = "max 1 (2 * ?n)"
    let ?nd0 = "replicate ?N Raw :: 'a RawMemory"
    have N: "(if ?n = 0 then 1 else size_t_mult ?n 2) = ?N"
      using c by (intro growth_capacity) (simp add: Size_def)
    have blk: "block_of tr ?N = ?nd0" using f g by (intro block_of_fits) simp
    obtain e1 where al: "RawMemory_ctor tr ?N e = (Inr ?nd0, e1)"
      and n1: "nothing_throws e1"
      using RawMemory_ctor_total [OF nt, of tr ?N] unfolding blk by blast
    have ok: "RawMemory_plus_ok ?nd0 ?n"
      by (simp add: RawMemory_plus_ok_def RawMemory_Capacity_def)
    have "\<exists>e2. construct_at ?nd0 ?n x e1 = (None, ?nd0[?n := Live x], e2) \<and> nothing_throws e2"
      using n1 by (intro construct_at_total) auto
    then obtain e2 where ca: "construct_at ?nd0 ?n x e1 = (None, ?nd0[?n := Live x], e2)"
      and n2: "nothing_throws e2" by blast
    show ?thesis
    proof (cases "nothrow_move_constructible tr \<or> \<not> copy_constructible tr")
      case True
      have "\<exists>src' dst' e'. uninitialized_move_loop tr (m_data v) 0 (?nd0[?n := Live x]) 0 0 ?n e2 =
            (None, src', dst', e') \<and> nothing_throws e'"
        using n2 n live by (intro uninitialized_move_loop_total) (auto simp: nth_list_update)
      then show ?thesis using g al N ok ca True
        by (auto simp: EmplaceBack_def RawMemory_Capacity_def uninitialized_move_n_def
            split: prod.splits)
    next
      case False
      have "\<exists>dst' e'. uninitialized_copy_loop (m_data v) 0 (?nd0[?n := Live x]) 0 0 ?n e2 =
            (None, dst', e') \<and> nothing_throws e'"
        using n2 n live by (intro uninitialized_copy_loop_total) (auto simp: nth_list_update)
      then show ?thesis using g al N ok ca False
        by (auto simp: EmplaceBack_def RawMemory_Capacity_def uninitialized_copy_n_def
            split: prod.splits)
    qed
  next
    case ng: False
    have "\<exists>e2. construct_at (m_data v) ?n x e = (None, (m_data v)[?n := Live x], e2) \<and>
            nothing_throws e2"
      using nt n ng raw by (intro construct_at_total) auto
    then show ?thesis using ng n
      by (auto simp: EmplaceBack_def RawMemory_Capacity_def RawMemory_plus_ok_def)
  qed
qed

lemma growth_request_fits:
  assumes "0 < sizeof_T tr" "sizeof_T tr < 2 ^ 63" "Capacity v * sizeof_T tr < 2 ^ 63"
  shows "allocation_fits tr (max 1 (2 * Capacity v))"
proof (cases "Capacity v = 0")
  case True
  then show ?thesis using assms(1,2) by (simp add: allocation_fits_def)
next
  case False
  then have "max 1 (2 * Capacity v) * sizeof_T tr = 2 * (Capacity v * sizeof_T tr)"
    by (simp add: max_def)
  then show ?thesis using assms(1,3) by (simp add: allocation_fits_def)
qed

text \<open>
  Claim C6. For a Vector that satisfies the invariant and holds fewer than \<open>2^63\<close>
  elements, so that the doubling of its size does not wrap around in \<^verbatim>\<open>size_t\<close> (no
  address space holds more elements): every normal return of PushBack leaves the size
  incremented and \<open>x\<close> as the last element, after the former elements, and, when the size
  was equal to the capacity \<open>C\<close>, a capacity of \<open>max 1 (2 * C)\<close>; EmplaceBack returns the
  index of the new element exactly when PushBack returns. When moreover the request
  for the new block, \<open>max 1 (2 * C) * sizeof(T)\<close> bytes, does not wrap around (by
  \<open>growth_request_fits\<close> it does not as soon as an element and the block of the Vector
  are below \<open>2^63\<close> bytes), the Vector returned satisfies the invariant again, and
  PushBack does return normally when nothing throws.
\<close>

theorem PushBack_spec:
  assumes "Vector_inv v" and "Size v < 2 ^ 63"
  shows "(\<forall>v' e'. PushBack tr x v e = (None, v', e') \<longrightarrow>
            Size v' = Size v + 1 \<and> last (elements v') = Live x \<and>
            elements v' = elements v @ [Live x] \<and>
            (Size v = Capacity v \<longrightarrow> Capacity v' = max 1 (2 * Capacity v)) \<and>
            ((Size v = Capacity v \<longrightarrow> allocation_fits tr (max 1 (2 * Capacity v))) \<longrightarrow>
               Vector_inv v')) \<and>
         (\<forall>i v' e'. EmplaceBack tr x v e = (Inr i, v', e') \<longrightarrow>
            i = Size v \<and> PushBack tr x v e = (None, v', e')) \<and>
         (nothing_throws e \<and> (Size v = Capacity v \<longrightarrow> allocation_fits tr (max 1 (2 * Capacity v)))
            \<longrightarrow> fst (PushBack tr x v e) = None)"
proof (intro conjI impI allI)
  fix v' e' assume p: "PushBack tr x v e = (None, v', e')"
  then obtain i where r: "EmplaceBack tr x v e = (Inr i, v', e')"
    by (auto simp: PushBack_def split: prod.splits sum.splits)
  note s = EmplaceBack_success [OF assms r]
  show "Size v' = Size v + 1" using s by (simp add: Size_def)
  show el: "elements v' = elements v @ [Live x]" using s by (simp add: elements_def)
  show "last (elements v') = Live x" unfolding el by simp
  {
    assume "Size v = Capacity v"
    then show "Capacity v' = max 1 (2 * Capacity v)"
      using s by (simp add: Size_def Capacity_def RawMemory_Capacity_def)
  }
  assume "Size v = Capacity v \<longrightarrow> allocation_fits tr (max 1 (2 * Capacity v))"
  then have "m_size v = length (m_data v) \<longrightarrow> allocation_fits tr (max 1 (2 * m_size v))"
    by (simp add: Size_def Capacity_def RawMemory_Capacity_def)
  then show "Vector_inv v'" using s by blast
next
  fix i v' e' assume r: "EmplaceBack tr x v e = (Inr i, v', e')"
  show "i = Size v" using EmplaceBack_success [OF assms r] by (simp add: Size_def)
  show "PushBack tr x v e = (None, v', e')" using r by (simp add: PushBack_def)
next
  assume a: "nothing_throws e \<and>
    (Size v = Capacity v \<longrightarrow> allocation_fits tr (max 1 (2 * Capacity v)))"
  then have f: "m_size v = length (m_data v) \<longrightarrow> allocation_fits tr (max 1 (2 * m_size v))"
    by (simp add: Size_def Capacity_def RawMemory_Capacity_def)
  from a have nt: "nothing_throws e" by simp
  obtain i v' e' where "EmplaceBack tr x v e = (Inr i, v', e')"
    using EmplaceBack_total [OF assms nt f] by blast
  then show "fst (PushBack tr x v e) = None" by (simp add: PushBack_def)
qed

theorem PushBack_spec_witness:
  "Vector_inv \<lparr>m_data = [Live (1 :: int), Live 2], m_size = 2\<rparr>
   \<and> Size \<lparr>m_data = [Live (1 :: int), Live 2], m_size = 2\<rparr> < 2 ^ 63
   \<and> Size \<lparr>m_data = [Live (1 :: int), Live 2], m_size = 2\<rparr> =
       Capacity \<lparr>m_data = [Live (1 :: int), Live 2], m_size = 2\<rparr>
   \<and> allocation_fits int_traits
       (max 1 (2 * Capacity \<lparr>m_data = [Live (1 :: int), Live 2], m_size = 2\<rparr>))
   \<and> nothing_throws (env_of 2 [])
   \<and> PushBack int_traits 5 \<lparr>m_data = [Live 1, Live 2], m_size = 2\<rparr> (env_of 2 []) =
       (None, \<lparr>m_data = [Live 1, Live 2, Live 5, Raw], m_size = 3\<rparr>,
        \<lparr>ctors = 5, dtors = 2, raw_dtors = 0, allocs = 1, deallocs = 1, plan = []\<rparr>)
   \<and> Size \<lparr>m_data = [Live (1 :: int), Live 2, Live 5, Raw], m_size = 3\<rparr> = 3
   \<and> Capacity \<lparr>m_data = [Live (1 :: int), Live 2, Live 5, Raw], m_size = 3\<rparr> = 4
   \<and> last (elements \<lparr>m_data = [Live (1 :: int), Live 2, Live 5, Raw], m_size = 3\<rparr>) = Live 5
   \<and> Vector_inv \<lparr>m_data = [Live (1 :: int), Live 2, Live 5, Raw], m_size = 3\<rparr>"
proof -
  let ?v = "\<lparr>m_data = [Live (1 :: int), Live 2], m_size = 2\<rparr>"
  have inv: "Vector_inv ?v" by (simp add: run_defs)
  have c: "Size ?v < 2 ^ 63" by (simp add: Size_def)
  have f: "allocation_fits int_traits (max 1 (2 * Capacity ?v))"
    by (simp add: allocation_fits_def int_traits_def Capacity_def RawMemory_Capacity_def)
  have run: "PushBack int_traits 5 ?v (env_of 2 []) =
       (None, \<lparr>m_data = [Live 1, Live 2, Live 5, Raw], m_size = 3\<rparr>,
        \<lparr>ctors = 5, dtors = 2, raw_dtors = 0, allocs = 1, deallocs = 1, plan = []\<rparr>)"
    by (simp add: PushBack_def EmplaceBack_def run_defs replicate_unfold)
  have nt: "nothing_throws (env_of 2 [])" by (simp add: nothing_throws_def env_of_def)
  show ?thesis
    using PushBack_spec [OF inv c, of int_traits 5 "env_of 2 []"] inv c f run nt
    by (simp add: Size_def Capacity_def RawMemory_Capacity_def)
qed

section \<open>Exception safety of the growing EmplaceBack\<close>

lemma EmplaceBack_failure:
  assumes g: "m_size v = length (m_data v)"
    and r: "EmplaceBack tr x v e = (Inl err, v', e')"
  shows "m_size v' = m_size v \<and> map shape (m_data v') = map shape (m_data v) \<and>
         dtors e' + ctors e = dtors e + ctors e' \<and> raw_dtors e' = raw_dtors e \<and>
         (\<not> (nothrow_move_constructible tr \<or> \<not> copy_constructible tr) \<longrightarrow> v' = v)"
proof -
  let ?n = "m_size v"
  let ?N = "if ?n = 0 then 1 else size_t_mult ?n 2"
  obtain a e1 where al: "(RawMemory_ctor tr ?N e :: (error + 'a RawMemory) \<times> env) = (a, e1)"
    by (cases "RawMemory_ctor tr ?N e :: (error + 'a RawMemory) \<times> env")
  show ?thesis
  proof (cases a)
    case (Inl err1)
    with r g al have "v' = v" "e' = e1" by (simp_all add: EmplaceBack_def RawMemory_Capacity_def)
    then show ?thesis using RawMemory_ctor_Inl [OF al [unfolded Inl]] by simp
  next
    case (Inr nd0)
    note c0 = RawMemory_ctor_Inr [OF al [unfolded Inr]]
    show ?thesis
    proof (cases "RawMemory_plus_ok nd0 ?n")
      case False
      with r g al Inr have "v' = v" "e' = e1"
        by (simp_all add: EmplaceBack_def RawMemory_Capacity_def)
      then show ?thesis using c0 by simp
    next
      case ok: True
      obtain q nd e2 where ca: "construct_at nd0 ?n x e1 = (q, nd, e2)"
        by (cases "construct_at nd0 ?n x e1")
      show ?thesis
      proof (cases q)
        case (Some err1)
        with r g al Inr ok ca have "v' = v" "e' = RawMemory_dtor nd e2"
          by (simp_all add: EmplaceBack_def RawMemory_Capacity_def)
        then show ?thesis using c0 construct_at_Some [OF ca [unfolded Some]]
          by (simp add: RawMemory_dtor_counters)
      next
        case None
        note cn = construct_at_None [OF ca [unfolded None]]
        show ?thesis
        proof (cases "nothrow_move_constructible tr \<or> \<not> copy_constructible tr")
          case True
          obtain p d nd' e3 where
            m: "uninitialized_move_loop tr (m_data v) 0 nd 0 0 ?n e2 = (p, d, nd', e3)"
            by (cases "uninitialized_move_loop tr (m_data v) 0 nd 0 0 ?n e2")
          obtain nd'' e4 where da: "destroy_at nd' ?n e3 = (nd'', e4)"
            by (cases "destroy_at nd' ?n e3")
          from r g al Inr ok ca None True m obtain err1 where p: "p = Some err1"
            by (cases p) (auto simp: EmplaceBack_def RawMemory_Capacity_def uninitialized_move_n_def
                split: prod.splits)
          from r g al Inr ok ca None True m p da
          have v': "v' = v\<lparr>m_data := d\<rparr>" "e' = RawMemory_dtor nd'' e4"
            by (auto simp: EmplaceBack_def RawMemory_Capacity_def uninitialized_move_n_def)
          have b: "length nd' = length nd \<and> length d = length (m_data v) \<and>
             map shape d = map shape (m_data v) \<and>
             (\<forall>j<length nd. j < 0 \<or> 0 + 0 + ?n \<le> j \<longrightarrow> nd' ! j = nd ! j) \<and>
             dtors e3 + ctors e2 = dtors e2 + 0 + ctors e3 \<and> raw_dtors e3 = raw_dtors e2"
            by (rule uninitialized_move_loop_Some [OF m [unfolded p]]) auto
          have "nd' ! ?n = Live x" using b cn by simp
          then have "raw_dtors e4 = raw_dtors e3" "dtors e4 = Suc (dtors e3)" "ctors e4 = ctors e3"
            using destroy_at_effect [OF da] b cn by (simp_all add: is_live_simps)
          then show ?thesis using v' b cn c0 True by (simp add: RawMemory_dtor_counters)
        next
          case False
          obtain p nd' e3 where
            m: "uninitialized_copy_loop (m_data v) 0 nd 0 0 ?n e2 = (p, nd', e3)"
            by (cases "uninitialized_copy_loop (m_data v) 0 nd 0 0 ?n e2")
          obtain nd'' e4 where da: "destroy_at nd' ?n e3 = (nd'', e4)"
            by (cases "destroy_at nd' ?n e3")
          from r g al Inr ok ca None False m obtain err1 where p: "p = Some err1"
            by (cases p) (auto simp: EmplaceBack_def RawMemory_Capacity_def uninitialized_copy_n_def
                split: prod.splits)
          from r g al Inr ok ca None False m p da
          have v': "v' = v" "e' = RawMemory_dtor nd'' e4"
            by (auto simp: EmplaceBack_def RawMemory_Capacity_def uninitialized_copy_n_def)
          have b: "length nd' = length nd \<and>
             (\<forall>j<length nd. j < 0 \<or> 0 + 0 + ?n \<le> j \<longrightarrow> nd' ! j = nd ! j) \<and>
             dtors e3 + ctors e2 = dtors e2 + 0 + ctors e3 \<and> raw_dtors e3 = raw_dtors e2"
            by (rule uninitialized_copy_loop_Some [OF m [unfolded p]]) auto
          have "nd' ! ?n = Live x" using b cn by simp
          then have "raw_dtors e4 = raw_dtors e3" "dtors e4 = Suc (dtors e3)" "ctors e4 = ctors e3"
            using destroy_at_effect [OF da] b cn by (simp_all add: is_live_simps)
          then show ?thesis using v' b cn c0 by (simp add: RawMemory_dtor_counters)
        qed
      qed
    qed
  qed
qed

text \<open>
  Claim C7. For a Vector that satisfies the invariant, with the size equal to the
  capacity: when EmplaceBack fails, whatever failed (the allocation, the construction of
  the new element, or the relocation after the new element was placed), the size and
  the capacity are unchanged and the elements of the Vector are all still live; the
  destructor calls made by the operation are as many as its constructions and none of
  them hit a slot without a live element, so the new element, once it was placed, is
  destroyed exactly once, like each element relocated before the failure; and when
  relocation copies, the Vector is exactly as before.
\<close>

theorem EmplaceBack_strong_exception_safety:
  assumes "Vector_inv v" and "Size v = Capacity v"
    and "EmplaceBack tr x v e = (Inl err, v', e')"
  shows "Size v' = Size v \<and> Capacity v' = Capacity v \<and> Vector_inv v' \<and>
         dtors e' + ctors e = dtors e + ctors e' \<and> raw_dtors e' = raw_dtors e \<and>
         (\<not> (nothrow_move_constructible tr \<or> \<not> copy_constructible tr) \<longrightarrow> v' = v)"
proof -
  have g: "m_size v = length (m_data v)"
    using assms(2) by (simp add: Size_def Capacity_def RawMemory_Capacity_def)
  note f = EmplaceBack_failure [OF g assms(3)]
  from f have sz: "m_size v' = m_size v" by (rule conjunct1)
  from f have lv: "map shape (m_data v') = map shape (m_data v)" by blast
  from f have bal: "dtors e' + ctors e = dtors e + ctors e'" by blast
  from f have raw: "raw_dtors e' = raw_dtors e" by blast
  from f have cp: "\<not> (nothrow_move_constructible tr \<or> \<not> copy_constructible tr) \<longrightarrow> v' = v"
    by blast
  have inv: "Vector_inv v'"
    using assms(1) sz lv by (rule Vector_inv_same_liveness)
  have len: "length (m_data v') = length (m_data v)"
    using lv by (rule map_eq_imp_length_eq)
  have "Size v' = Size v" using sz by (simp add: Size_def)
  moreover have "Capacity v' = Capacity v"
    using len by (simp add: Capacity_def RawMemory_Capacity_def)
  ultimately show ?thesis using inv bal raw cp by blast
qed

theorem EmplaceBack_strong_exception_safety_witness:
  "Vector_inv \<lparr>m_data = [Live (1 :: int), Live 2], m_size = 2\<rparr>
   \<and> Size \<lparr>m_data = [Live (1 :: int), Live 2], m_size = 2\<rparr> =
       Capacity \<lparr>m_data = [Live (1 :: int), Live 2], m_size = 2\<rparr>
   \<and> EmplaceBack int_traits 5 \<lparr>m_data = [Live 1, Live 2], m_size = 2\<rparr>
       (env_of 2 [False, False, False, True]) =
       (Inl ElementOperationFailure, \<lparr>m_data = [Live 1, Live 2], m_size = 2\<rparr>,
        \<lparr>ctors = 4, dtors = 2, raw_dtors = 0, allocs = 1, deallocs = 1, plan = []\<rparr>)
   \<and> EmplaceBack int_traits 5 \<lparr>m_data = [Live 1, Live 2], m_size = 2\<rparr>
       (env_of 2 [False, True]) =
       (Inl ElementOperationFailure, \<lparr>m_data = [Live 1, Live 2], m_size = 2\<rparr>,
        \<lparr>ctors = 2, dtors = 0, raw_dtors = 0, allocs = 1, deallocs = 1, plan = []\<rparr>)
   \<and> dtors \<lparr>ctors = 4, dtors = 2, raw_dtors = 0, allocs = 1, deallocs = 1, plan = []\<rparr>
       + ctors (env_of 2 [False, False, False, True]) =
     dtors (env_of 2 [False, False, False, True])
       + ctors \<lparr>ctors = 4, dtors = 2, raw_dtors = 0, allocs = 1, deallocs = 1, plan = []\<rparr>"
proof -
  let ?v = "\<lparr>m_data = [Live (1 :: int), Live 2], m_size = 2\<rparr>"
  have inv: "Vector_inv ?v" by (simp add: run_defs)
  have g: "Size ?v = Capacity ?v" by (simp add: run_defs)
  have run1: "EmplaceBack int_traits 5 ?v (env_of 2 [False, False, False, True]) =
       (Inl ElementOperationFailure, ?v,
        \<lparr>ctors = 4, dtors = 2, raw_dtors = 0, allocs = 1, deallocs = 1, plan = []\<rparr>)"
    by (simp add: EmplaceBack_def run_defs)
  have run2: "EmplaceBack int_traits 5 ?v (env_of 2 [False, True]) =
       (Inl ElementOperationFailure, ?v,
        \<lparr>ctors = 2, dtors = 0, raw_dtors = 0, allocs = 1, deallocs = 1, plan = []\<rparr>)"
    by (simp add: EmplaceBack_def run_defs)
  show ?thesis
    using EmplaceBack_strong_exception_safety [OF inv g run1]
      EmplaceBack_strong_exception_safety [OF inv g run2] inv g run1 run2
    by simp
qed

section \<open>Move construction\<close>

lemma uninitialized_move_n_zero:
  "uninitialized_move_n tr src first 0 dst d_first e = (None, src, dst, e)"
  by (simp add: uninitialized_move_n_def)

text \<open>
  Claim C8. Move construction never fails and runs no element operation: the new Vector
  has the storage and the size of \<open>other\<close>, hence its capacity and its elements, and
  \<open>other\<close> is left with the null buffer, capacity 0 and size 0.
\<close>

theorem Vector_move_ctor_steals:
  "Vector_move_ctor tr other e =
     (Inr (\<lparr>m_data = m_data other, m_size = m_size other\<rparr>, \<lparr>m_data = [], m_size = 0\<rparr>), e)
   \<and> Size (\<lparr>m_data = m_data other, m_size = m_size other\<rparr> :: 'a Vector) = Size other
   \<and> Capacity (\<lparr>m_data = m_data other, m_size = m_size other\<rparr> :: 'a Vector) = Capacity other
   \<and> elements (\<lparr>m_data = m_data other, m_size = m_size other\<rparr> :: 'a Vector) = elements other
   \<and> Size (\<lparr>m_data = [], m_size = 0\<rparr> :: 'a Vector) = 0
   \<and> Capacity (\<lparr>m_data = [], m_size = 0\<rparr> :: 'a Vector) = 0"
  by (simp add: Vector_move_ctor_def uninitialized_move_n_zero Size_def Capacity_def
      RawMemory_Capacity_def elements_def)

section \<open>Erase\<close>

lemma erased_elements:
  assumes "i < n" "n \<le> length xs" "length d = length xs"
    and "\<forall>j<length xs. j \<noteq> n - 1 \<longrightarrow> d ! j = (if i \<le> j \<and> j < n - 1 then xs ! Suc j else xs ! j)"
  shows "take (n - 1) d = take i (take n xs) @ drop (i + 1) (take n xs)"
proof (rule nth_equalityI)
  show "length (take (n - 1) d) = length (take i (take n xs) @ drop (i + 1) (take n xs))"
    using assms(1,2,3) by simp
next
  fix j assume "j < length (take (n - 1) d)"
  then have j: "j < n - 1" by simp
  then have l: "take (n - 1) d ! j = (if i \<le> j then xs ! Suc j else xs ! j)"
    using assms by simp
  show "take (n - 1) d ! j = (take i (take n xs) @ drop (i + 1) (take n xs)) ! j"
  proof (cases "j < i")
    case True
    then show ?thesis using l j assms(1,2) by (simp add: nth_append)
  next
    case False
    then have "i + 1 + (j - i) = Suc j" by simp
    then show ?thesis using l j False assms(1,2) by (simp add: nth_append)
  qed
qed

lemma Erase_success:
  assumes inv: "Vector_inv v" and p0: "0 \<le> pos" and p1: "pos < cend v"
    and r: "Erase tr pos v e = (Inr it, v', e')"
  shows "it = pos \<and> m_size v' = m_size v - 1 \<and> length (m_data v') = length (m_data v) \<and>
         take (m_size v - 1) (m_data v') =
           take (nat pos) (elements v) @ drop (nat pos + 1) (elements v) \<and>
         Vector_inv v' \<and>
         ctors e' = ctors e \<and> dtors e' = dtors e + 1 \<and> raw_dtors e' = raw_dtors e"
proof -
  let ?n = "m_size v" and ?i = "nat pos"
  note n = Vector_inv_live(1) [OF inv] and live = Vector_inv_live(2) [OF inv]
    and raw = Vector_inv_live(3) [OF inv]
  from p0 p1 have i: "?i < ?n" "int ?i = pos" by (simp_all add: cend_def)
  have as: "Erase_assertion v pos" using p0 p1 by (simp add: Erase_assertion_def cbegin_def)
  obtain q d e1 where m: "std_move_loop tr (m_data v) (Suc ?i) ?i (?n - Suc ?i) e = (q, d, e1)"
    by (cases "std_move_loop tr (m_data v) (Suc ?i) ?i (?n - Suc ?i) e")
  obtain d' e2 where dn: "destroy_at d (?n - 1) e1 = (d', e2)"
    by (cases "destroy_at d (?n - 1) e1")
  from r as i m have q: "q = None"
    by (cases q) (auto simp: Erase_def cbegin_def std_move_def)
  from r as i m q dn have v': "v' = \<lparr>m_data = d', m_size = ?n - 1\<rparr>" "it = pos" "e' = e2"
    by (auto simp: Erase_def cbegin_def std_move_def)
  note b = std_move_loop_shift_None [OF m [unfolded q]]
  have lend: "length d = length (m_data v)" using b by simp
  have nth: "\<forall>j<length (m_data v). j \<noteq> ?n - 1 \<longrightarrow>
      d ! j = (if ?i \<le> j \<and> j < ?n - 1 then m_data v ! Suc j else m_data v ! j)"
    using b i by auto
  have lived: "is_live (d ! j) = is_live (m_data v ! j)" if "j < length (m_data v)" for j
    using b that by (intro same_liveness_nth) simp_all
  have ll: "is_live (d ! (?n - 1))" using lived [of "?n - 1"] live n i by auto
  have lt: "?n - 1 < length d" using lend n i by arith
  have c: "d' = d[?n - 1 := Raw]" "ctors e2 = ctors e1" "dtors e2 = Suc (dtors e1)"
    "raw_dtors e2 = raw_dtors e1"
    using destroy_at_effect [OF dn] ll lt by simp_all
  have len: "length d' = length (m_data v)" using lend c by simp
  have nth': "\<forall>j<length (m_data v). j \<noteq> ?n - 1 \<longrightarrow>
      d' ! j = (if ?i \<le> j \<and> j < ?n - 1 then m_data v ! Suc j else m_data v ! j)"
    using nth c by (auto simp: nth_list_update)
  have el: "take (?n - 1) d' = take ?i (take ?n (m_data v)) @ drop (?i + 1) (take ?n (m_data v))"
    using i n len nth' by (intro erased_elements) auto
  have dl: "\<forall>j<length (m_data v).
      (j < ?n - 1 \<longrightarrow> is_live (d' ! j)) \<and> (?n - 1 \<le> j \<longrightarrow> d' ! j = Raw)"
  proof (intro allI impI)
    fix j assume j: "j < length (m_data v)"
    show "(j < ?n - 1 \<longrightarrow> is_live (d' ! j)) \<and> (?n - 1 \<le> j \<longrightarrow> d' ! j = Raw)"
    proof (cases "j = ?n - 1")
      case True
      then show ?thesis using c j lend by simp
    next
      case False
      then have e: "d' ! j = d ! j" using c by (simp add: nth_list_update)
      have "is_live (d ! j)" if "j < ?n - 1" using lived [OF j] live j that by auto
      moreover have "d ! j = Raw" if "?n - 1 \<le> j"
        using nth j False that raw i by auto
      ultimately show ?thesis using e by auto
    qed
  qed
  have iv: "Vector_inv v'"
    unfolding Vector_inv_nth using v' len dl n i by auto
  show ?thesis using v' len el iv b c by (simp add: elements_def)
qed

lemma Erase_total:
  assumes inv: "Vector_inv v" and p0: "0 \<le> pos" and p1: "pos < cend v"
    and nt: "nothing_throws e"
  shows "\<exists>v' e'. Erase tr pos v e = (Inr pos, v', e')"
proof -
  let ?n = "m_size v" and ?i = "nat pos"
  note n = Vector_inv_live(1) [OF inv] and live = Vector_inv_live(2) [OF inv]
  from p0 p1 have i: "?i < ?n" "int ?i = pos" by (simp_all add: cend_def)
  have as: "Erase_assertion v pos" using p0 p1 by (simp add: Erase_assertion_def cbegin_def)
  have "\<exists>xs' e'. std_move_loop tr (m_data v) (Suc ?i) ?i (?n - Suc ?i) e = (None, xs', e') \<and>
          nothing_throws e'"
    using nt n i live by (intro std_move_loop_shift_total) auto
  then show ?thesis using as i
    by (auto simp: Erase_def cbegin_def std_move_def split: prod.splits)
qed

text \<open>
  Claim C9. For a Vector that satisfies the invariant and a position with
  \<open>begin() \<le> pos < end()\<close>, at index \<open>i\<close>: every normal return of Erase gives back \<open>pos\<close>,
  the size is one less, the elements are the former ones without the one at \<open>i\<close> (those
  behind it moved one slot to the left, so that \<open>pos\<close> now refers to the element that
  followed the erased one), slot \<open>n - 1\<close> is raw, exactly one destructor call was made,
  on a live element, and nothing was constructed; and Erase does return normally when
  nothing throws. The witness is the scenario of the specification: index 3 erased from
  \<open>[0..9]\<close>.
\<close>

theorem Erase_spec:
  assumes "Vector_inv v" and "cbegin v \<le> pos" and "pos < cend v"
  shows "(\<forall>it v' e'. Erase tr pos v e = (Inr it, v', e') \<longrightarrow>
            it = pos \<and> Size v' = Size v - 1 \<and>
            elements v' = take (nat pos) (elements v) @ drop (nat pos + 1) (elements v) \<and>
            (nat pos + 1 < Size v \<longrightarrow> elements v' ! nat pos = elements v ! (nat pos + 1)) \<and>
            m_data v' ! (Size v - 1) = Raw \<and> Capacity v' = Capacity v \<and> Vector_inv v' \<and>
            ctors e' = ctors e \<and> dtors e' = dtors e + 1 \<and> raw_dtors e' = raw_dtors e) \<and>
         (nothing_throws e \<longrightarrow> (\<exists>v' e'. Erase tr pos v e = (Inr pos, v', e')))"
proof (intro conjI impI allI)
  from assms(2) have p0: "0 \<le> pos" by (simp add: cbegin_def)
  from assms(1) have n: "m_size v \<le> length (m_data v)" by (simp add: Vector_inv_nth)
  from p0 assms(3) have i: "nat pos < m_size v" by (simp add: cend_def)
  {
    fix it v' e' assume r: "Erase tr pos v e = (Inr it, v', e')"
    note s = Erase_success [OF assms(1) p0 assms(3) r]
    show "it = pos" using s by simp
    show "Size v' = Size v - 1" using s by (simp add: Size_def)
    show el: "elements v' = take (nat pos) (elements v) @ drop (nat pos + 1) (elements v)"
      using s by (simp add: elements_def)
    show "Capacity v' = Capacity v" using s by (simp add: Capacity_def RawMemory_Capacity_def)
    show "Vector_inv v'" using s by simp
    show "ctors e' = ctors e" "dtors e' = dtors e + 1" "raw_dtors e' = raw_dtors e"
      using s by simp_all
    show "m_data v' ! (Size v - 1) = Raw"
      using s n i by (simp add: Vector_inv_nth Size_def)
    assume "nat pos + 1 < Size v"
    then show "elements v' ! nat pos = elements v ! (nat pos + 1)"
      unfolding el using n by (simp add: nth_append elements_def Size_def)
  }
  assume "nothing_throws e"
  then show "\<exists>v' e'. Erase tr pos v e = (Inr pos, v', e')"
    by (rule Erase_total [OF assms(1) p0 assms(3)])
qed

theorem Erase_spec_witness:
  "Vector_inv \<lparr>m_data = map Live [0, 1, 2, 3, 4, 5, 6, 7, 8, 9 :: int], m_size = 10\<rparr>
   \<and> cbegin \<lparr>m_data = map Live [0, 1, 2, 3, 4, 5, 6, 7, 8, 9 :: int], m_size = 10\<rparr> \<le> 3
   \<and> 3 < cend \<lparr>m_data = map Live [0, 1, 2, 3, 4, 5, 6, 7, 8, 9 :: int], m_size = 10\<rparr>
   \<and> nothing_throws (env_of 10 [])
   \<and> Erase int_traits 3 \<lparr>m_data = map Live [0, 1, 2, 3, 4, 5, 6, 7, 8, 9], m_size = 10\<rparr>
       (env_of 10 []) =
       (Inr 3,
        \<lparr>m_data = map Live [0, 1, 2, 4, 5, 6, 7, 8, 9] @ [Raw], m_size = 9\<rparr>,
        \<lparr>ctors = 10, dtors = 1, raw_dtors = 0, allocs = 0, deallocs = 0, plan = []\<rparr>)
   \<and> Size \<lparr>m_data = map Live [0, 1, 2, 4, 5, 6, 7, 8, 9 :: int] @ [Raw], m_size = 9\<rparr> = 9
   \<and> elements \<lparr>m_data = map Live [0, 1, 2, 4, 5, 6, 7, 8, 9 :: int] @ [Raw], m_size = 9\<rparr> =
       map Live [0, 1, 2, 4, 5, 6, 7, 8, 9]
   \<and> elements \<lparr>m_data = map Live [0, 1, 2, 4, 5, 6, 7, 8, 9 :: int] @ [Raw], m_size = 9\<rparr> ! 3 =
       Live 4"
proof -
  let ?v = "\<lparr>m_data = map Live [0, 1, 2, 3, 4, 5, 6, 7, 8, 9 :: int], m_size = 10\<rparr>"
  have inv: "Vector_inv ?v" by (simp add: run_defs)
  have p: "cbegin ?v \<le> 3" "3 < cend ?v" by (simp_all add: cbegin_def cend_def)
  have run: "Erase int_traits 3 ?v (env_of 10 []) =
       (Inr 3,
        \<lparr>m_data = map Live [0, 1, 2, 4, 5, 6, 7, 8, 9] @ [Raw], m_size = 9\<rparr>,
        \<lparr>ctors = 10, dtors = 1, raw_dtors = 0, allocs = 0, deallocs = 0, plan = []\<rparr>)"
    by (simp add: Erase_def run_defs)
  have nt: "nothing_throws (env_of 10 [])" by (simp add: nothing_throws_def env_of_def)
  show ?thesis
    using Erase_spec [OF inv p, of int_traits "env_of 10 []"] inv p run nt
    by (simp add: Size_def elements_def)
qed

section \<open>Self-assignment\<close>

text \<open>
  Claim C10. Both assignment operators test \<^verbatim>\<open>this != &rhs\<close> first: assigning the object
  at address \<open>a\<close> to itself changes neither the store (so the size, the capacity and every
  element of the object stay as they are) nor the environment.
\<close>

theorem self_assignment_identity:
  "Vector_copy_assign tr a a s e = (None, s, e) \<and> Vector_move_assign a a s = s
   \<and> Size (Vector_move_assign a a s a) = Size (s a)
   \<and> Capacity (Vector_move_assign a a s a) = Capacity (s a)
   \<and> elements (Vector_move_assign a a s a) = elements (s a)"
  by (simp add: Vector_copy_assign_def Vector_move_assign_def)

end
